theory Spec2Isabelle
  imports Main
begin

section \<open>Data model of \<^verbatim>\<open>pathExecutableCache.ts\<close>\<close>

text \<open>
  Strings are \<open>string\<close> (character lists). The imported declarations that the file
  only uses (\<^verbatim>\<open>TerminalShellType\<close>, \<^verbatim>\<open>vscode.TerminalCompletionItemKind\<close>,
  \<^verbatim>\<open>vscode.FileType\<close>, \<^verbatim>\<open>ICompletionResource\<close>) are declared with the members the
  file mentions.
\<close>

datatype TerminalShellType = Bash | Fish | Zsh | PowerShell | WindowsPowerShell | GitBash

datatype TerminalCompletionItemKind = KindFile | KindFolder | KindMethod

record ICompletionResource =
  label :: string
  documentation :: string
  kind :: TerminalCompletionItemKind

text \<open>
  \<^verbatim>\<open>vscode.FileType\<close> is a bit mask (\<^verbatim>\<open>Unknown = 0\<close>, \<^verbatim>\<open>File = 1\<close>,
  \<^verbatim>\<open>Directory = 2\<close>, \<^verbatim>\<open>SymbolicLink = 64\<close>); the scanner compares an entry's type with
  \<^verbatim>\<open>===\<close> against \<^verbatim>\<open>Unknown\<close> and \<^verbatim>\<open>Directory\<close> only.
\<close>

definition FileType_Unknown :: nat where "FileType_Unknown = 0"
definition FileType_File :: nat where "FileType_File = 1"
definition FileType_Directory :: nat where "FileType_Directory = 2"
definition FileType_SymbolicLink :: nat where "FileType_SymbolicLink = 64"

text \<open>
  \<^verbatim>\<open>ITerminalEnvironment = { [key: string]: string | undefined }\<close>: an object, read
  through \<^verbatim>\<open>Object.keys\<close> (own keys in insertion order) and through property access.
  It is an association list in key order; a key may be bound to \<^verbatim>\<open>undefined\<close>.
\<close>

type_synonym ITerminalEnvironment = "(string \<times> string option) list"

definition Object_keys :: "ITerminalEnvironment \<Rightarrow> string list" where
  "Object_keys env = map fst env"

definition env_get :: "ITerminalEnvironment \<Rightarrow> string \<Rightarrow> string option" where
  \<comment> \<open>\<^verbatim>\<open>env[key]\<close>: \<^verbatim>\<open>undefined\<close> for a missing key and for a key bound to \<^verbatim>\<open>undefined\<close>\<close>
  "env_get env key = (case map_of env key of None \<Rightarrow> None | Some v \<Rightarrow> v)"

text \<open>
  \<^verbatim>\<open>String.prototype.toLowerCase\<close>, on the letters \<^verbatim>\<open>A\<close> to \<^verbatim>\<open>Z\<close>; every other
  character is left as it is. The source compares the result with \<^verbatim>\<open>'path'\<close> only, and no
  character outside \<^verbatim>\<open>A\<close> to \<^verbatim>\<open>Z\<close> has one of its four letters as its lower case.
\<close>

definition toLowerCase_char :: "char \<Rightarrow> char" where
  "toLowerCase_char c =
     (case map_of (zip ''ABCDEFGHIJKLMNOPQRSTUVWXYZ'' ''abcdefghijklmnopqrstuvwxyz'') c of
        None \<Rightarrow> c
      | Some l \<Rightarrow> l)"

definition toLowerCase :: "string \<Rightarrow> string" where
  "toLowerCase s = map toLowerCase_char s"

fun split :: "string \<Rightarrow> char \<Rightarrow> string list" where
  \<comment> \<open>\<^verbatim>\<open>s.split(c)\<close> for a one-character separator: never empty, \<^verbatim>\<open>''.split(c) = ['']\<close>\<close>
  "split [] c = [[]]"
| "split (x # xs) c =
     (if x = c then [] # split xs c
      else (case split xs c of [] \<Rightarrow> [[x]] | y # ys \<Rightarrow> (x # y) # ys))"

text \<open>
  The configured Windows executable extensions
  (\<^verbatim>\<open>{ [key: string]: boolean | undefined } | undefined\<close>).
\<close>

type_synonym WindowsExeExtensions = "(string \<times> bool option) list option"

text \<open>
  The cached value \<^verbatim>\<open>{ completionResources, labels }\<close>. A JavaScript \<^verbatim>\<open>Set\<close> of
  objects compares its members by identity and every resource is a fresh object literal,
  so \<^verbatim>\<open>completionResources\<close> is the list of added objects in insertion order.
  \<^verbatim>\<open>labels\<close> is a set of strings.
\<close>

record CachedExes =
  completionResources :: "ICompletionResource list"
  labels :: "string set"

text \<open>
  The fields of a \<^verbatim>\<open>PathExecutableCache\<close> instance. \<open>listening\<close> stands for the
  subscription held in \<^verbatim>\<open>_disposables\<close>: the configuration handler is registered by the
  constructor on Windows only and removed by \<^verbatim>\<open>dispose\<close>.
\<close>

record PathExecutableCache =
  cachedPathValue :: "string option"
  cachedWindowsExeExtensions :: WindowsExeExtensions
  cachedExes :: "CachedExes option"
  listening :: bool

text \<open>
  What the module reads from its process: \<^verbatim>\<open>osIsWindows()\<close> (which also decides
  \<^verbatim>\<open>path.delimiter\<close>) and the value of the expression \<^verbatim>\<open>process.env.PATH\<close>.
\<close>

record Host =
  isWindows :: bool
  process_env_PATH :: "string option"

text \<open>
  The file system and the imported helpers, as the scanner and the watcher observe them.
  A rejected promise or a thrown error is \<open>None\<close>.
  \<^item> \<open>stat_isDirectory p\<close>: \<^verbatim>\<open>fs.stat(p)\<close> followed by \<^verbatim>\<open>isDirectory()\<close>;
  \<^item> \<open>readDirectory p\<close>: \<^verbatim>\<open>vscode.workspace.fs.readDirectory(Uri.file(p))\<close>;
  \<^item> \<open>lstat_isSymbolicLink p\<close>: \<^verbatim>\<open>fs.lstat(p)\<close> followed by \<^verbatim>\<open>isSymbolicLink()\<close>;
  \<^item> \<open>realpath p\<close>: \<^verbatim>\<open>fs.realpath(p)\<close>;
  \<^item> \<open>isExecutable p exts\<close>: the helper \<^verbatim>\<open>isExecutable\<close> of \<^verbatim>\<open>helpers/executable\<close>;
  \<^item> \<open>resource_fsPath dir file\<close>: \<^verbatim>\<open>Uri.joinPath(Uri.file(dir), file).fsPath\<close>;
  \<^item> \<open>getFriendlyResourcePath p sep\<close>: the helper of \<^verbatim>\<open>helpers/uri\<close>, on the
    resource's \<^verbatim>\<open>fsPath\<close>;
  \<^item> \<open>watch_throws dir\<close>: whether \<^verbatim>\<open>filesystem.watch(dir, ...)\<close> throws.
\<close>

record FileSystem =
  stat_isDirectory :: "string \<Rightarrow> bool option"
  readDirectory :: "string \<Rightarrow> (string \<times> nat) list option"
  lstat_isSymbolicLink :: "string \<Rightarrow> bool option"
  realpath :: "string \<Rightarrow> string option"
  isExecutable :: "string \<Rightarrow> WindowsExeExtensions \<Rightarrow> bool option"
  resource_fsPath :: "string \<Rightarrow> string \<Rightarrow> string"
  getFriendlyResourcePath :: "string \<Rightarrow> string \<Rightarrow> string"
  watch_throws :: "string \<Rightarrow> bool"

section \<open>The directory scanner \<^verbatim>\<open>_getExecutablesInPath\<close>\<close>

text \<open>
  \<^verbatim>\<open>_getExecutablesInPath\<close> is an \<^verbatim>\<open>async\<close> function: it runs without interruption
  from one \<^verbatim>\<open>await\<close> to the next, and at each \<^verbatim>\<open>await\<close> other scans started by the same
  \<^verbatim>\<open>getExecutablesInPath\<close> may run. A scan in progress is therefore a task suspended at
  one of its six \<^verbatim>\<open>await\<close>s, or returned:
  \<^item> \<open>AwaitStat\<close>: \<^verbatim>\<open>await fs.stat(path)...\<close> (line 101);
  \<^item> \<open>AwaitReadDirectory\<close>: \<^verbatim>\<open>await vscode.workspace.fs.readDirectory(fileResource)\<close> (line 107);
  \<^item> \<open>AwaitLstat file\<close>: \<^verbatim>\<open>await fs.lstat(resource.fsPath)\<close> for the entry \<open>file\<close> (line 119);
  \<^item> \<open>AwaitRealpath file\<close>: \<^verbatim>\<open>await fs.realpath(resource.fsPath)\<close> (line 122);
  \<^item> \<open>AwaitIsExecutableLink file symlinkRealPath\<close>: \<^verbatim>\<open>await isExecutable(symlinkRealPath, ...)\<close> (line 123);
  \<^item> \<open>AwaitIsExecutable file formattedPath\<close>: \<^verbatim>\<open>await isExecutable(formattedPath, ...)\<close> (line 145);
  \<^item> \<open>Returned r\<close>: the promise is settled with \<open>r\<close> (\<open>None\<close> is \<^verbatim>\<open>undefined\<close>).

  \<open>files\<close> holds the directory entries after the current one, \<open>result\<close> the local
  \<^verbatim>\<open>result\<close> set. The shared \<^verbatim>\<open>labels\<close> set is passed to each step and returned.
\<close>

datatype ScanPoint =
    AwaitStat
  | AwaitReadDirectory
  | AwaitLstat string
  | AwaitRealpath string
  | AwaitIsExecutableLink string string
  | AwaitIsExecutable string string
  | Returned "ICompletionResource list option"

record ScanTask =
  path :: string
  pathSeparator :: string
  files :: "(string \<times> nat) list"
  result :: "ICompletionResource list"
  at :: ScanPoint

definition start_scan :: "string \<Rightarrow> string \<Rightarrow> ScanTask" where
  \<comment> \<open>the call \<^verbatim>\<open>this._getExecutablesInPath(path, pathSeparator, labels)\<close>, up to its first \<^verbatim>\<open>await\<close>\<close>
  "start_scan p sep = \<lparr>path = p, pathSeparator = sep, files = [], result = [], at = AwaitStat\<rparr>"

fun next_file :: "ScanTask \<Rightarrow> (string \<times> nat) list \<Rightarrow> ScanTask" where
  \<comment> \<open>the head of the \<^verbatim>\<open>for\<close> loop (lines 108-119), over the entries still to visit\<close>
  "next_file t [] = t\<lparr>files := [], at := Returned (Some (result t))\<rparr>"
| "next_file t ((file, fileType) # rest) =
     (if fileType = FileType_Unknown \<or> fileType = FileType_Directory then next_file t rest
      else t\<lparr>files := rest, at := AwaitLstat file\<rparr>)"

definition add_resource :: "ScanTask \<Rightarrow> string set \<Rightarrow> string \<Rightarrow> string \<Rightarrow> ScanTask \<times> string set" where
  \<comment> \<open>lines 150-155, then on to the next entry\<close>
  "add_resource t lbls file formattedPath =
     (next_file
        (t\<lparr>result := result t @ [\<lparr>label = file, documentation = formattedPath, kind = KindMethod\<rparr>]\<rparr>)
        (files t),
      insert file lbls)"

definition scan_step ::
  "FileSystem \<Rightarrow> WindowsExeExtensions \<Rightarrow> ScanTask \<Rightarrow> string set \<Rightarrow> ScanTask \<times> string set" where
  "scan_step fs exts t lbls =
     (case at t of
        AwaitStat \<Rightarrow>
          (let dirExists = (case stat_isDirectory fs (path t) of None \<Rightarrow> False | Some b \<Rightarrow> b)
           in if \<not> dirExists then (t\<lparr>at := Returned None\<rparr>, lbls)
              else (t\<lparr>at := AwaitReadDirectory\<rparr>, lbls))
      | AwaitReadDirectory \<Rightarrow>
          (case readDirectory fs (path t) of
             None \<Rightarrow> (t\<lparr>at := Returned None\<rparr>, lbls)
           | Some entries \<Rightarrow> (next_file t entries, lbls))
      | AwaitLstat file \<Rightarrow>
          (let resource = resource_fsPath fs (path t) file
           in case lstat_isSymbolicLink fs resource of
                None \<Rightarrow> (next_file t (files t), lbls)
              | Some True \<Rightarrow> (t\<lparr>at := AwaitRealpath file\<rparr>, lbls)
              | Some False \<Rightarrow>
                  (let formattedPath = getFriendlyResourcePath fs resource (pathSeparator t)
                   in if file \<in> lbls then (next_file t (files t), lbls)
                      else (t\<lparr>at := AwaitIsExecutable file formattedPath\<rparr>, lbls)))
      | AwaitRealpath file \<Rightarrow>
          (case realpath fs (resource_fsPath fs (path t) file) of
             None \<Rightarrow> (next_file t (files t), lbls)
           | Some symlinkRealPath \<Rightarrow> (t\<lparr>at := AwaitIsExecutableLink file symlinkRealPath\<rparr>, lbls))
      | AwaitIsExecutableLink file symlinkRealPath \<Rightarrow>
          (case isExecutable fs symlinkRealPath exts of
             None \<Rightarrow> (next_file t (files t), lbls)
           | Some isExec \<Rightarrow>
               if \<not> isExec then (next_file t (files t), lbls)
               else (let formattedPath =
                           resource_fsPath fs (path t) file @ '' -> '' @ symlinkRealPath
                     in if file \<in> lbls then (next_file t (files t), lbls)
                        else add_resource t lbls file formattedPath))
      | AwaitIsExecutable file formattedPath \<Rightarrow>
          (case isExecutable fs formattedPath exts of
             None \<Rightarrow> (t\<lparr>at := Returned None\<rparr>, lbls)
           | Some isExec \<Rightarrow>
               if \<not> isExec then (next_file t (files t), lbls)
               else add_resource t lbls file formattedPath)
      | Returned r \<Rightarrow> (t, lbls))"


subsection \<open>Running a scan to its end\<close>

definition settled :: "ScanTask \<Rightarrow> bool" where
  "settled t = (case at t of Returned r \<Rightarrow> True | _ \<Rightarrow> False)"

definition returned :: "ScanTask \<Rightarrow> ICompletionResource list option" where
  "returned t = (case at t of Returned r \<Rightarrow> r | _ \<Rightarrow> None)"

definition scan_measure :: "FileSystem \<Rightarrow> ScanTask \<Rightarrow> nat" where
  "scan_measure fs t =
     (let listed = (case readDirectory fs (path t) of None \<Rightarrow> 0 | Some entries \<Rightarrow> length entries)
      in case at t of
           AwaitStat \<Rightarrow> 3 * listed + 5
         | AwaitReadDirectory \<Rightarrow> 3 * listed + 4
         | AwaitLstat file \<Rightarrow> 3 * length (files t) + 3
         | AwaitRealpath file \<Rightarrow> 3 * length (files t) + 2
         | AwaitIsExecutableLink file p \<Rightarrow> 3 * length (files t) + 1
         | AwaitIsExecutable file p \<Rightarrow> 3 * length (files t) + 1
         | Returned r \<Rightarrow> 0)"

lemma next_file_measure: "scan_measure fs (next_file t entries) \<le> 3 * length entries"
proof (induction entries arbitrary: t)
  case Nil
  show ?case by (simp add: scan_measure_def)
next
  case (Cons e entries)
  obtain name fileType where e: "e = (name, fileType)"
    by (cases e)
  show ?case
  proof (cases "fileType = FileType_Unknown \<or> fileType = FileType_Directory")
    case True
    with e Cons.IH [of t] show ?thesis by auto
  next
    case False
    with e show ?thesis by (simp add: scan_measure_def)
  qed
qed

lemma next_file_path [simp]: "path (next_file t entries) = path t"
  by (induction entries arbitrary: t) auto

lemma next_file_pathSeparator [simp]: "pathSeparator (next_file t entries) = pathSeparator t"
  by (induction entries arbitrary: t) auto

lemma scan_measure_at:
  "at t = AwaitLstat f \<Longrightarrow> scan_measure fs t = 3 * length (files t) + 3"
  "at t = AwaitRealpath f \<Longrightarrow> scan_measure fs t = 3 * length (files t) + 2"
  "at t = AwaitIsExecutableLink f p \<Longrightarrow> scan_measure fs t = 3 * length (files t) + 1"
  "at t = AwaitIsExecutable f p \<Longrightarrow> scan_measure fs t = 3 * length (files t) + 1"
  "at t = Returned r \<Longrightarrow> scan_measure fs t = 0"
  by (simp_all add: scan_measure_def)

lemma scan_step_decreases:
  assumes "\<not> settled t"
  shows "scan_measure fs (fst (scan_step fs exts t lbls)) < scan_measure fs t"
proof (cases "at t")
  case AwaitStat
  then show ?thesis
    by (simp add: scan_step_def scan_measure_def Let_def)
next
  case AwaitReadDirectory
  then show ?thesis
  proof (cases "readDirectory fs (path t)")
    case None
    with AwaitReadDirectory show ?thesis
      by (simp add: scan_step_def scan_measure_def)
  next
    case (Some entries)
    have "scan_measure fs (next_file t entries) \<le> 3 * length entries"
      by (rule next_file_measure)
    moreover have "scan_measure fs t = 3 * length entries + 4"
      using AwaitReadDirectory Some by (simp add: scan_measure_def)
    ultimately show ?thesis
      using AwaitReadDirectory Some by (simp add: scan_step_def)
  qed
next
  case (AwaitLstat name)
  have "scan_measure fs (next_file t (files t)) \<le> 3 * length (files t)"
    by (rule next_file_measure)
  with AwaitLstat show ?thesis
    by (auto simp: scan_step_def scan_measure_at Let_def split: option.splits bool.splits)
next
  case (AwaitRealpath name)
  have "scan_measure fs (next_file t (files t)) \<le> 3 * length (files t)"
    by (rule next_file_measure)
  with AwaitRealpath show ?thesis
    by (auto simp: scan_step_def scan_measure_at Let_def split: option.splits)
next
  case (AwaitIsExecutableLink name p)
  have "\<And>u. scan_measure fs (next_file u (files t)) \<le> 3 * length (files t)"
    by (rule next_file_measure)
  with AwaitIsExecutableLink show ?thesis
    by (auto simp: scan_step_def add_resource_def scan_measure_at Let_def le_imp_less_Suc
        split: option.splits)
next
  case (AwaitIsExecutable name p)
  have "\<And>u. scan_measure fs (next_file u (files t)) \<le> 3 * length (files t)"
    by (rule next_file_measure)
  with AwaitIsExecutable show ?thesis
    by (auto simp: scan_step_def add_resource_def scan_measure_at Let_def le_imp_less_Suc
        split: option.splits)
next
  case (Returned r)
  with assms show ?thesis
    by (simp add: settled_def)
qed

function run_to_completion ::
  "FileSystem \<Rightarrow> WindowsExeExtensions \<Rightarrow> ScanTask \<Rightarrow> string set
     \<Rightarrow> ICompletionResource list option \<times> string set" where
  "run_to_completion fs exts t lbls =
     (if settled t then (returned t, lbls)
      else (case scan_step fs exts t lbls of (t', lbls') \<Rightarrow> run_to_completion fs exts t' lbls'))"
  by pat_completeness auto
termination
proof (relation "measure (\<lambda>(fs, exts, t, lbls). scan_measure fs t)")
  show "wf (measure (\<lambda>(fs, exts, t, lbls). scan_measure fs t))"
    by simp
qed (metis scan_step_decreases fst_conv in_measure case_prod_conv)

declare run_to_completion.simps [simp del]

subsection \<open>The scans of one pass, resumed in any order\<close>

text \<open>
  \<^verbatim>\<open>getExecutablesInPath\<close> starts one scan per directory (each runs to its first
  \<^verbatim>\<open>await\<close>) and waits for all of them with \<^verbatim>\<open>Promise.all\<close>. Which suspended scan is
  resumed next is decided by the order in which the awaited operations complete; it is the
  schedule, a list of positions in the list of scans. Resuming a scan runs it to its next
  \<^verbatim>\<open>await\<close>. A position outside the list, or that of a returned scan, does nothing. When
  the schedule is used up, the scans that have not returned are run to their end one after
  the other, in list order: every schedule gives a complete run, the empty schedule is the
  run without any interleaving, and every order of resumption is the run of some schedule.
\<close>

definition resume ::
  "FileSystem \<Rightarrow> WindowsExeExtensions \<Rightarrow> nat \<Rightarrow> ScanTask list \<Rightarrow> string set
     \<Rightarrow> ScanTask list \<times> string set" where
  "resume fs exts i ts lbls =
     (if i < length ts
      then (case scan_step fs exts (ts ! i) lbls of (t', lbls') \<Rightarrow> (ts[i := t'], lbls'))
      else (ts, lbls))"

fun interleave ::
  "FileSystem \<Rightarrow> WindowsExeExtensions \<Rightarrow> nat list \<Rightarrow> ScanTask list \<Rightarrow> string set
     \<Rightarrow> ScanTask list \<times> string set" where
  "interleave fs exts [] ts lbls = (ts, lbls)"
| "interleave fs exts (i # schedule) ts lbls =
     (case resume fs exts i ts lbls of (ts', lbls') \<Rightarrow> interleave fs exts schedule ts' lbls')"

fun settle_all ::
  "FileSystem \<Rightarrow> WindowsExeExtensions \<Rightarrow> ScanTask list \<Rightarrow> string set
     \<Rightarrow> ICompletionResource list option list \<times> string set" where
  "settle_all fs exts [] lbls = ([], lbls)"
| "settle_all fs exts (t # ts) lbls =
     (case run_to_completion fs exts t lbls of
        (r, lbls') \<Rightarrow> (case settle_all fs exts ts lbls' of (rs, lbls'') \<Rightarrow> (r # rs, lbls'')))"

definition Promise_all ::
  "FileSystem \<Rightarrow> WindowsExeExtensions \<Rightarrow> nat list \<Rightarrow> ScanTask list \<Rightarrow> string set
     \<Rightarrow> ICompletionResource list option list \<times> string set" where
  "Promise_all fs exts schedule promises lbls =
     (case interleave fs exts schedule promises lbls of
        (ts, lbls') \<Rightarrow> settle_all fs exts ts lbls')"

section \<open>The cache manager\<close>

definition new_PathExecutableCache :: "Host \<Rightarrow> WindowsExeExtensions \<Rightarrow> PathExecutableCache" where
  \<comment> \<open>the constructor; \<open>configured\<close> is what the configuration store holds for the setting\<close>
  "new_PathExecutableCache host configured =
     (if isWindows host
      then \<lparr>cachedPathValue = None, cachedWindowsExeExtensions = configured,
            cachedExes = None, listening = True\<rparr>
      else \<lparr>cachedPathValue = None, cachedWindowsExeExtensions = None,
            cachedExes = None, listening = False\<rparr>)"

definition onDidChangeConfiguration ::
  "bool \<Rightarrow> WindowsExeExtensions \<Rightarrow> PathExecutableCache \<Rightarrow> PathExecutableCache" where
  \<comment> \<open>the handler of lines 29-34; \<open>affects\<close> is the value of \<^verbatim>\<open>e.affectsConfiguration(...)\<close>\<close>
  "onDidChangeConfiguration affects configured this =
     (if affects then this\<lparr>cachedWindowsExeExtensions := configured, cachedExes := None\<rparr>
      else this)"

definition fire_configuration_change ::
  "bool \<Rightarrow> WindowsExeExtensions \<Rightarrow> PathExecutableCache \<Rightarrow> PathExecutableCache" where
  \<comment> \<open>a configuration change event reaches the handler while it is registered\<close>
  "fire_configuration_change affects configured this =
     (if listening this then onDidChangeConfiguration affects configured this else this)"


definition refresh :: "PathExecutableCache \<Rightarrow> PathExecutableCache" where
  "refresh this = this\<lparr>cachedExes := None, cachedPathValue := None\<rparr>"

definition truthy :: "string \<Rightarrow> bool" where
  \<comment> \<open>a string in a condition: the empty string is false\<close>
  "truthy s = (s \<noteq> [])"

definition resolvePathValue ::
  "Host \<Rightarrow> ITerminalEnvironment \<Rightarrow> TerminalShellType option \<Rightarrow> string option" where
  \<comment> \<open>lines 51-63: the value of \<^verbatim>\<open>pathValue\<close> at line 64\<close>
  "resolvePathValue host env shellType =
     (if shellType = Some GitBash then process_env_PATH host
      else if isWindows host then
        (case find (\<lambda>key. toLowerCase key = ''path'') (Object_keys env) of
           None \<Rightarrow> None
         | Some caseSensitivePathKey \<Rightarrow>
             if truthy caseSensitivePathKey then env_get env caseSensitivePathKey else None)
      else env_get env ''PATH'')"

definition split_paths :: "Host \<Rightarrow> string \<Rightarrow> string list" where
  \<comment> \<open>line 74\<close>
  "split_paths host pathValue = split pathValue (if isWindows host then CHR '';'' else CHR '':'')"

definition merge_results :: "ICompletionResource list option list \<Rightarrow> ICompletionResource list" where
  \<comment> \<open>lines 83-91\<close>
  "merge_results resultSets =
     concat (map (\<lambda>resultSet. case resultSet of None \<Rightarrow> [] | Some r \<Rightarrow> r) resultSets)"

definition extractExecutables ::
  "Host \<Rightarrow> FileSystem \<Rightarrow> WindowsExeExtensions \<Rightarrow> nat list \<Rightarrow> string \<Rightarrow> CachedExes" where
  \<comment> \<open>lines 73-91 and the object built at line 95\<close>
  "extractExecutables host fs exts schedule pathValue =
     (let paths = split_paths host pathValue;
          pathSeparator = (if isWindows host then [CHR 0x5C] else ''/'');
          promises = map (\<lambda>p. start_scan p pathSeparator) paths
      in case Promise_all fs exts schedule promises {} of
           (resultSets, lbls) \<Rightarrow>
             \<lparr>completionResources = merge_results resultSets, labels = lbls\<rparr>)"

text \<open>
  \<^verbatim>\<open>getExecutablesInPath\<close> returns the value of the call, the fields of the instance
  afterwards, and the directories it called \<^verbatim>\<open>_getExecutablesInPath\<close> on (the scanner
  calls of this lookup, in order). The default \<^verbatim>\<open>env = process.env\<close> is the caller's
  business: \<open>env\<close> is the environment the body sees. This is the lookup that nothing
  interrupts: no other operation on the instance runs between its cache check (line 69) and
  its return (line 96). The lookup in its two parts, with other operations in between, follows
  below.
\<close>

definition getExecutablesInPath ::
  "Host \<Rightarrow> FileSystem \<Rightarrow> nat list \<Rightarrow> PathExecutableCache \<Rightarrow> ITerminalEnvironment
     \<Rightarrow> TerminalShellType option \<Rightarrow> CachedExes option \<times> PathExecutableCache \<times> string list" where
  "getExecutablesInPath host fs schedule this env shellType =
     (case resolvePathValue host env shellType of
        None \<Rightarrow> (None, this, [])
      | Some pathValue \<Rightarrow>
          if cachedExes this \<noteq> None \<and> cachedPathValue this = Some pathValue
          then (cachedExes this, this, [])
          else (let exes = extractExecutables host fs (cachedWindowsExeExtensions this)
                             schedule pathValue
                in (Some exes,
                    this\<lparr>cachedPathValue := Some pathValue, cachedExes := Some exes\<rparr>,
                    split_paths host pathValue)))"


subsection \<open>A lookup in two parts\<close>

text \<open>
  \<^verbatim>\<open>getExecutablesInPath\<close> is suspended at \<^verbatim>\<open>await Promise.all(promises)\<close> (line 84),
  between its cache check and the assignments of lines 94-95. While it is suspended its
  scans are resumed one at a time, and \<^verbatim>\<open>refresh\<close> or the configuration handler may run
  on the instance. A fill in flight holds what the suspended call holds: its
  \<^verbatim>\<open>pathValue\<close>, its scans, its \<^verbatim>\<open>labels\<close>; and, for each scan, the value of
  \<^verbatim>\<open>this._cachedWindowsExeExtensions\<close> when the scan last ran, which is the value it passed
  to the \<^verbatim>\<open>isExecutable\<close> call it may be awaiting (lines 123 and 145 read the field at
  the call).
\<close>

record FillInFlight =
  fillPathValue :: string
  fillPromises :: "ScanTask list"
  fillLabels :: "string set"
  passedExts :: "WindowsExeExtensions list"

datatype LookupBegun = Returns "CachedExes option" | Fills FillInFlight

text \<open>Lines 49-84: the call returns at once, or starts its scans and is suspended.\<close>

definition begin_lookup ::
  "Host \<Rightarrow> PathExecutableCache \<Rightarrow> ITerminalEnvironment \<Rightarrow> TerminalShellType option
     \<Rightarrow> LookupBegun" where
  "begin_lookup host this env shellType =
     (case resolvePathValue host env shellType of
        None \<Rightarrow> Returns None
      | Some pathValue \<Rightarrow>
          if cachedExes this \<noteq> None \<and> cachedPathValue this = Some pathValue
          then Returns (cachedExes this)
          else (let paths = split_paths host pathValue;
                    pathSeparator = (if isWindows host then [CHR 0x5C] else ''/'')
                in Fills \<lparr>fillPathValue = pathValue,
                          fillPromises = map (\<lambda>p. start_scan p pathSeparator) paths,
                          fillLabels = {},
                          passedExts = replicate (length paths) (cachedWindowsExeExtensions this)\<rparr>))"

text \<open>
  One scan of the fill is resumed: the call it awaited answers for the extensions it was
  passed, and the scan runs to its next \<^verbatim>\<open>await\<close> reading the instance as it is now.
\<close>

definition resume_scan ::
  "FileSystem \<Rightarrow> PathExecutableCache \<Rightarrow> nat \<Rightarrow> FillInFlight \<Rightarrow> FillInFlight" where
  "resume_scan fs this i f =
     (if i < length (fillPromises f) \<and> i < length (passedExts f)
      then (case scan_step fs (passedExts f ! i) (fillPromises f ! i) (fillLabels f) of
              (t', lbls') \<Rightarrow>
                f\<lparr>fillPromises := (fillPromises f)[i := t'], fillLabels := lbls',
                  passedExts := (passedExts f)[i := cachedWindowsExeExtensions this]\<rparr>)
      else f)"

text \<open>
  The rest of the fill, with nothing else running on the instance: every scan is resumed
  from the call it awaits and runs to its end, one after the other.
\<close>

fun settle_each ::
  "FileSystem \<Rightarrow> WindowsExeExtensions \<Rightarrow> (ScanTask \<times> WindowsExeExtensions) list \<Rightarrow> string set
     \<Rightarrow> ICompletionResource list option list \<times> string set" where
  "settle_each fs exts [] lbls = ([], lbls)"
| "settle_each fs exts ((t, passed) # rest) lbls =
     (case scan_step fs passed t lbls of
        (t1, lbls1) \<Rightarrow>
          (case run_to_completion fs exts t1 lbls1 of
             (r, lbls2) \<Rightarrow>
               (case settle_each fs exts rest lbls2 of (rs, lbls3) \<Rightarrow> (r # rs, lbls3))))"

definition await_all ::
  "FileSystem \<Rightarrow> PathExecutableCache \<Rightarrow> FillInFlight
     \<Rightarrow> ICompletionResource list option list \<times> string set" where
  "await_all fs this f =
     settle_each fs (cachedWindowsExeExtensions this) (zip (fillPromises f) (passedExts f))
       (fillLabels f)"

text \<open>Lines 85-96, once every scan has settled: the merge and the two assignments.\<close>

definition publish ::
  "PathExecutableCache \<Rightarrow> string \<Rightarrow> ICompletionResource list option list \<times> string set
     \<Rightarrow> CachedExes \<times> PathExecutableCache" where
  "publish this pathValue settled_scans =
     (case settled_scans of
        (resultSets, lbls) \<Rightarrow>
          (let exes = \<lparr>completionResources = merge_results resultSets, labels = lbls\<rparr>
           in (exes, this\<lparr>cachedPathValue := Some pathValue, cachedExes := Some exes\<rparr>)))"

section \<open>The directory watcher \<^verbatim>\<open>watchPathDirectories\<close>\<close>

text \<open>
  The objects \<^verbatim>\<open>watchPathDirectories\<close> creates outlive the call: the watchers, the
  disposables pushed to \<^verbatim>\<open>context.subscriptions\<close>, and the \<^verbatim>\<open>activeWatchers\<close> set
  of the call, which the disposables' closures keep. They are kept in a store:
  \<^item> \<open>watchers\<close>: the \<^verbatim>\<open>FSWatcher\<close>s created so far, in creation order, each with its
    directory and whether it is still open;
  \<^item> \<open>registries\<close>: the \<^verbatim>\<open>activeWatchers\<close> set of each call so far, in call order;
  \<^item> \<open>subscriptions\<close>: the disposables pushed so far, each holding the position of its
    watcher, the position of its call's \<^verbatim>\<open>activeWatchers\<close> and its \<^verbatim>\<open>dir\<close>.
  A watcher's callback calls \<^verbatim>\<open>refresh\<close> on the cache it was given, if any.
\<close>

record WatchState =
  watchers :: "(string \<times> bool) list"
  registries :: "string set list"
  subscriptions :: "(nat \<times> nat \<times> string) list"

definition activeWatchers :: "WatchState \<Rightarrow> nat \<Rightarrow> string set" where
  "activeWatchers w call = (if call < length (registries w) then registries w ! call else {})"

definition Set_add :: "string list \<Rightarrow> string \<Rightarrow> string list" where
  \<comment> \<open>\<^verbatim>\<open>Set.prototype.add\<close> on a set kept in insertion order\<close>
  "Set_add xs x = (if x \<in> set xs then xs else xs @ [x])"

definition pathDirectories :: "Host \<Rightarrow> ITerminalEnvironment \<Rightarrow> string list" where
  \<comment> \<open>lines 166-171\<close>
  "pathDirectories host env =
     (case env_get env ''PATH'' of
        None \<Rightarrow> []
      | Some envPath \<Rightarrow>
          if truthy envPath
          then fold (\<lambda>p dirs. Set_add dirs p)
                 (split envPath (if isWindows host then CHR '';'' else CHR '':'')) []
          else [])"

definition watch_directory :: "FileSystem \<Rightarrow> nat \<Rightarrow> string \<Rightarrow> WatchState \<Rightarrow> WatchState" where
  \<comment> \<open>the body of the loop (lines 177-203) in the call number \<open>call\<close>\<close>
  "watch_directory fs call dir w =
     (if dir \<in> activeWatchers w call then w
      else case stat_isDirectory fs dir of
             None \<Rightarrow> w
           | Some isDir \<Rightarrow>
               if \<not> isDir then w
               else if watch_throws fs dir then w
               else w\<lparr>watchers := watchers w @ [(dir, True)],
                      registries := (registries w)[call := insert dir (activeWatchers w call)],
                      subscriptions := subscriptions w @ [(length (watchers w), call, dir)]\<rparr>)"

definition watchPathDirectories ::
  "Host \<Rightarrow> FileSystem \<Rightarrow> WatchState \<Rightarrow> ITerminalEnvironment \<Rightarrow> WatchState" where
  "watchPathDirectories host fs w env =
     (let call = length (registries w)
      in fold (watch_directory fs call) (pathDirectories host env)
           (w\<lparr>registries := registries w @ [{}]\<rparr>))"

definition dispose_subscription :: "nat \<times> nat \<times> string \<Rightarrow> WatchState \<Rightarrow> WatchState" where
  \<comment> \<open>the disposable of lines 197-202: \<^verbatim>\<open>watcher.close(); activeWatchers.delete(dir)\<close>\<close>
  "dispose_subscription d w =
     (case d of (watcher, call, dir) \<Rightarrow>
        w\<lparr>watchers := (watchers w)[watcher := (dir, False)],
          registries := (registries w)[call := activeWatchers w call - {dir}]\<rparr>)"

definition open_watches :: "WatchState \<Rightarrow> string \<Rightarrow> nat" where
  \<comment> \<open>how many open watchers there are on a directory\<close>
  "open_watches w dir = length (filter (\<lambda>(d, opened). opened \<and> d = dir) (watchers w))"

text \<open>
  The mutable state of the feature: the cache instance and the watch store. A
  configuration change event is delivered to the cache's handler.
\<close>

record Extension =
  pathExecutableCache :: PathExecutableCache
  watchState :: WatchState

definition configuration_changed :: "bool \<Rightarrow> WindowsExeExtensions \<Rightarrow> Extension \<Rightarrow> Extension" where
  "configuration_changed affects configured ext =
     ext\<lparr>pathExecutableCache :=
           fire_configuration_change affects configured (pathExecutableCache ext)\<rparr>"


section \<open>The PATH resolution policy, as the specification words it\<close>

definition equal_ignoring_case :: "string \<Rightarrow> string \<Rightarrow> bool" where
  "equal_ignoring_case a b = (toLowerCase a = toLowerCase b)"

definition PATH_resolution_policy ::
  "Host \<Rightarrow> ITerminalEnvironment \<Rightarrow> TerminalShellType option \<Rightarrow> string option" where
  \<comment> \<open>the three cases of the specification, in its order, on the environment's bindings\<close>
  "PATH_resolution_policy host env shellHint =
     (if shellHint = Some GitBash then process_env_PATH host
      else if isWindows host then
        (case find (\<lambda>(key, v). equal_ignoring_case key ''path'') env of
           None \<Rightarrow> None
         | Some (key, v) \<Rightarrow> v)
      else (case find (\<lambda>(key, v). key = ''PATH'') env of
              None \<Rightarrow> None
            | Some (key, v) \<Rightarrow> v))"

definition path_equivalent :: "Host \<Rightarrow> string \<Rightarrow> bool" where
  \<comment> \<open>a key that the platform reads as the PATH variable\<close>
  "path_equivalent host key =
     (if isWindows host then equal_ignoring_case key ''path'' else key = ''PATH'')"

section \<open>Concrete inputs\<close>

definition posix :: Host where
  "posix = \<lparr>isWindows = False, process_env_PATH = Some ''/usr/bin''\<rparr>"

definition windows :: Host where
  "windows = \<lparr>isWindows = True, process_env_PATH = Some ''/a''\<rparr>"

text \<open>
  Four directories: \<^verbatim>\<open>/a\<close> and \<^verbatim>\<open>/b\<close> each hold a regular file \<^verbatim>\<open>foo\<close>;
  \<^verbatim>\<open>/c\<close> holds the links \<^verbatim>\<open>foo -> /opt/foo\<close> and \<^verbatim>\<open>tool -> /opt/tool\<close> and a
  dangling link; \<^verbatim>\<open>/d\<close> holds the regular files \<^verbatim>\<open>ok\<close> and \<^verbatim>\<open>bad\<close>.
  \<^verbatim>\<open>/etc/hosts\<close> is a file. The executability check fails with an error on
  \<^verbatim>\<open>/d/bad\<close> and answers yes on every other path.
\<close>

definition example_fs :: FileSystem where
  "example_fs =
     \<lparr>stat_isDirectory = (\<lambda>p. if p \<in> {''/a'', ''/b'', ''/c'', ''/d''} then Some True
                              else if p = ''/etc/hosts'' then Some False else None),
      readDirectory = (\<lambda>p.
        if p = ''/a'' then Some [(''foo'', FileType_File)]
        else if p = ''/b'' then Some [(''foo'', FileType_File)]
        else if p = ''/c'' then Some [(''foo'', 65), (''dangling'', 64), (''tool'', 65)]
        else if p = ''/d'' then Some [(''ok'', FileType_File), (''bad'', FileType_File)]
        else None),
      lstat_isSymbolicLink = (\<lambda>p. Some (p \<in> {''/c/foo'', ''/c/dangling'', ''/c/tool''})),
      realpath = (\<lambda>p. if p = ''/c/foo'' then Some ''/opt/foo''
                      else if p = ''/c/tool'' then Some ''/opt/tool'' else None),
      isExecutable = (\<lambda>p exts. if p = ''/d/bad'' then None else Some True),
      resource_fsPath = (\<lambda>dir name. dir @ ''/'' @ name),
      getFriendlyResourcePath = (\<lambda>p sep. p),
      watch_throws = (\<lambda>dir. False)\<rparr>"

section \<open>Where a stored entry comes from\<close>



definition example_cached :: PathExecutableCache where
  "example_cached =
     \<lparr>cachedPathValue = Some ''/a'', cachedWindowsExeExtensions = None,
      cachedExes = Some \<lparr>completionResources =
                 [\<lparr>label = ''foo'', documentation = ''/a/foo'', kind = KindMethod\<rparr>],
               labels = {''foo''}\<rparr>, listening = False\<rparr>"

text \<open>
  A directory \<^verbatim>\<open>/w\<close> on Windows with \<^verbatim>\<open>run.ps1\<close> and \<^verbatim>\<open>tool.exe\<close>:
  \<^verbatim>\<open>tool.exe\<close> is always executable, \<^verbatim>\<open>run.ps1\<close> only when the configured extensions
  mark \<^verbatim>\<open>.ps1\<close>. Then the fills begun for \<^verbatim>\<open>/a\<close> and for \<^verbatim>\<open>/w\<close>, the instance
  after a lookup of \<^verbatim>\<open>/w\<close> with nothing configured, and the feature's state with it.
\<close>

definition windows_fs :: FileSystem where
  "windows_fs =
     \<lparr>stat_isDirectory = (\<lambda>p. if p = ''/w'' then Some True else None),
      readDirectory = (\<lambda>p.
        if p = ''/w'' then Some [(''run.ps1'', FileType_File), (''tool.exe'', FileType_File)]
        else None),
      lstat_isSymbolicLink = (\<lambda>p. Some False),
      realpath = (\<lambda>p. None),
      isExecutable = (\<lambda>p exts.
        if p = ''/w/tool.exe'' then Some True
        else if p = ''/w/run.ps1''
        then Some (case exts of None \<Rightarrow> False
                   | Some configured \<Rightarrow> map_of configured ''.ps1'' = Some (Some True))
        else Some False),
      resource_fsPath = (\<lambda>dir name. dir @ ''/'' @ name),
      getFriendlyResourcePath = (\<lambda>p sep. p),
      watch_throws = (\<lambda>dir. False)\<rparr>"

definition fill_of_a :: FillInFlight where
  "fill_of_a = \<lparr>fillPathValue = ''/a'', fillPromises = [start_scan ''/a'' ''/''],
                 fillLabels = {}, passedExts = [None]\<rparr>"

definition fill_of_w :: FillInFlight where
  "fill_of_w = \<lparr>fillPathValue = ''/w'', fillPromises = [start_scan ''/w'' [CHR 0x5C]],
                 fillLabels = {}, passedExts = [None]\<rparr>"

definition cached_w :: PathExecutableCache where
  "cached_w =
     \<lparr>cachedPathValue = Some ''/w'', cachedWindowsExeExtensions = None,
      cachedExes = Some \<lparr>completionResources =
                 [\<lparr>label = ''tool.exe'', documentation = ''/w/tool.exe'', kind = KindMethod\<rparr>],
               labels = {''tool.exe''}\<rparr>, listening = True\<rparr>"

definition windows_extension :: Extension where
  "windows_extension =
     \<lparr>pathExecutableCache = cached_w,
      watchState = \<lparr>watchers = [(''/w'', True)], registries = [{''/w''}],
                    subscriptions = [(0, 0, ''/w'')]\<rparr>\<rparr>"

definition no_watchers :: WatchState where
  "no_watchers = \<lparr>watchers = [], registries = [], subscriptions = []\<rparr>"


text \<open>A scan suspended in \<^verbatim>\<open>/d\<close>, with \<^verbatim>\<open>ok\<close> already in its result.\<close>

definition suspended_in_d :: ScanTask where
  "suspended_in_d =
     \<lparr>path = ''/d'', pathSeparator = ''/'', files = [],
      result = [\<lparr>label = ''ok'', documentation = ''/d/ok'', kind = KindMethod\<rparr>],
      at = AwaitIsExecutable ''bad'' ''/d/bad''\<rparr>"

section \<open>Scans that will return \<^verbatim>\<open>undefined\<close>\<close>

text \<open>
  A scan is bound to return \<^verbatim>\<open>undefined\<close> when the operation it awaits will fail
  outside the inner \<^verbatim>\<open>try\<close> blocks, or report that the path is no directory; or when it
  has returned \<^verbatim>\<open>undefined\<close> already.
\<close>

definition doomed :: "FileSystem \<Rightarrow> WindowsExeExtensions \<Rightarrow> ScanTask \<Rightarrow> bool" where
  "doomed fs exts t =
     (case at t of
        AwaitStat \<Rightarrow> stat_isDirectory fs (path t) \<noteq> Some True \<or> readDirectory fs (path t) = None
      | AwaitReadDirectory \<Rightarrow> readDirectory fs (path t) = None
      | AwaitIsExecutable name formattedPath \<Rightarrow> isExecutable fs formattedPath exts = None
      | Returned r \<Rightarrow> r = None
      | _ \<Rightarrow> False)"



section \<open>A scan seen from its own side\<close>

text \<open>
  \<open>resumed_with fs exts t later\<close>: the scan \<open>t\<close> after it has been resumed once for each
  element of \<open>later\<close>, finding the shared labels in the state given by that element (the
  other scans may have changed them in between).
\<close>

fun resumed_with ::
  "FileSystem \<Rightarrow> WindowsExeExtensions \<Rightarrow> ScanTask \<Rightarrow> string set list \<Rightarrow> ScanTask" where
  "resumed_with fs exts t [] = t"
| "resumed_with fs exts t (lbls # later) =
     resumed_with fs exts (fst (scan_step fs exts t lbls)) later"

text \<open>A scan that has returned a set has returned its \<^verbatim>\<open>result\<close>.\<close>

definition returns_its_result :: "ScanTask \<Rightarrow> bool" where
  "returns_its_result t = (\<forall>r. at t = Returned (Some r) \<longrightarrow> r = result t)"

text \<open>A scan suspended in \<^verbatim>\<open>/c\<close> at the \<^verbatim>\<open>lstat\<close> of its last entry \<^verbatim>\<open>tool\<close>.\<close>

definition suspended_in_c :: ScanTask where
  "suspended_in_c =
     \<lparr>path = ''/c'', pathSeparator = ''/'', files = [], result = [], at = AwaitLstat ''tool''\<rparr>"

section \<open>Resolution of the PATH value\<close>

lemma env_get_find:
  "env_get env k = (case find (\<lambda>(key, v). key = k) env of None \<Rightarrow> None | Some (key, v) \<Rightarrow> v)"
  by (induction env) (auto simp: env_get_def)

lemma find_key_env_get:
  "(case find P (Object_keys env) of None \<Rightarrow> None | Some k \<Rightarrow> env_get env k)
     = (case find (\<lambda>(key, v). P key) env of None \<Rightarrow> None | Some (key, v) \<Rightarrow> v)"
proof (induction env)
  case Nil
  show ?case by (simp add: Object_keys_def)
next
  case (Cons e env)
  obtain a b where e: "e = (a, b)" by (cases e)
  show ?case
  proof (cases "P a")
    case True
    with e show ?thesis by (simp add: Object_keys_def env_get_def)
  next
    case False
    have "env_get ((a, b) # env) k = env_get env k" if "find P (Object_keys env) = Some k" for k
    proof -
      from that have "P k" by (auto simp: find_Some_iff)
      with False have "k \<noteq> a" by auto
      then show ?thesis by (simp add: env_get_def)
    qed
    with False e Cons.IH show ?thesis
      by (auto simp: Object_keys_def split: option.splits)
  qed
qed

lemma toLowerCase_path [simp]: "toLowerCase ''path'' = ''path''" "toLowerCase ''PATH'' = ''path''"
  by (simp_all add: toLowerCase_def toLowerCase_char_def)

lemma find_lower_truthy:
  "find (\<lambda>key. toLowerCase key = ''path'') ks = Some k \<Longrightarrow> truthy k"
  by (induction ks) (auto simp: truthy_def toLowerCase_def split: if_splits)

lemma resolve_follows_policy:
  "resolvePathValue host env shellType = PATH_resolution_policy host env shellType"
proof -
  let ?P = "\<lambda>key. toLowerCase key = ''path''"
  have "(case find ?P (Object_keys env) of None \<Rightarrow> None
         | Some k \<Rightarrow> if truthy k then env_get env k else None)
      = (case find ?P (Object_keys env) of None \<Rightarrow> None | Some k \<Rightarrow> env_get env k)"
    by (auto split: option.splits dest: find_lower_truthy)
  also have "\<dots> = (case find (\<lambda>(key, v). ?P key) env of None \<Rightarrow> None | Some (key, v) \<Rightarrow> v)"
    by (rule find_key_env_get)
  finally show ?thesis
    by (simp add: resolvePathValue_def PATH_resolution_policy_def equal_ignoring_case_def env_get_find)
qed

lemma split_not_Nil [simp]: "split s c \<noteq> []"
  by (cases s) (auto split: list.splits)

lemma split_paths_not_Nil [simp]: "split_paths host p \<noteq> []"
  by (simp add: split_paths_def)

lemma no_key_no_path:
  assumes "shellType \<noteq> Some GitBash"
    and "\<forall>key \<in> set (Object_keys env). \<not> path_equivalent host key"
  shows "resolvePathValue host env shellType = None"
proof (cases "isWindows host")
  case True
  with assms(2) have "find (\<lambda>key. toLowerCase key = ''path'') (Object_keys env) = None"
    by (auto simp: find_None_iff path_equivalent_def equal_ignoring_case_def)
  with True assms(1) show ?thesis by (simp add: resolvePathValue_def)
next
  case False
  with assms(2) have "''PATH'' \<notin> fst ` set env"
    by (auto simp: path_equivalent_def Object_keys_def)
  then have "map_of env ''PATH'' = None" by (simp add: map_of_eq_None_iff)
  with False assms(1) show ?thesis by (simp add: resolvePathValue_def env_get_def)
qed

text \<open>
  C5. For every environment and optional shell hint, the PATH string that
  \<^verbatim>\<open>getExecutablesInPath\<close> works with is the one the resolution policy gives: the
  process-level PATH for the Git Bash hint, whatever the environment holds; otherwise on
  Windows the value of the first key equal to \<^verbatim>\<open>path\<close> ignoring case; otherwise the value of
  the key \<^verbatim>\<open>PATH\<close>, compared exactly. The lookup uses nothing else of the environment and
  the hint: it is the lookup on the environment that binds \<^verbatim>\<open>PATH\<close> to the policy's value.
\<close>

theorem C5_path_resolution_priority:
  "resolvePathValue host env shellType = PATH_resolution_policy host env shellType
   \<and> getExecutablesInPath host fs schedule this env shellType
       = getExecutablesInPath host fs schedule this
           [(''PATH'', PATH_resolution_policy host env shellType)] None"
proof -
  have "resolvePathValue host [(''PATH'', v)] None = v" for v
    by (simp add: resolvePathValue_def Object_keys_def env_get_def truthy_def)
  then show ?thesis
    by (simp add: resolve_follows_policy [symmetric] getExecutablesInPath_def)
qed

section \<open>Absent results\<close>

text \<open>
  C3. \<^verbatim>\<open>getExecutablesInPath\<close> returns \<^verbatim>\<open>undefined\<close> exactly when no PATH value is
  resolved; whenever one is resolved it returns a cache entry. For an environment with no
  key that the platform reads as PATH, and no Git Bash hint, the lookup returns
  \<^verbatim>\<open>undefined\<close>, leaves the instance as it is and calls no scanner.
\<close>

theorem C3_absent_iff_no_path_resolved:
  "(fst (getExecutablesInPath host fs schedule this env shellType) = None)
      = (resolvePathValue host env shellType = None)
   \<and> (shellType \<noteq> Some GitBash \<and> (\<forall>key \<in> set (Object_keys env). \<not> path_equivalent host key)
        \<longrightarrow> getExecutablesInPath host fs schedule this env shellType = (None, this, []))"
proof -
  have "(fst (getExecutablesInPath host fs schedule this env shellType) = None)
      = (resolvePathValue host env shellType = None)"
    by (auto simp: getExecutablesInPath_def Let_def split: option.splits)
  moreover have "getExecutablesInPath host fs schedule this env shellType = (None, this, [])"
    if "shellType \<noteq> Some GitBash" "\<forall>key \<in> set (Object_keys env). \<not> path_equivalent host key"
    using no_key_no_path [OF that] by (simp add: getExecutablesInPath_def)
  ultimately show ?thesis by blast
qed

theorem C3_absent_witness:
  "list_all (\<lambda>key. \<not> path_equivalent posix key) (Object_keys [(''HOME'', Some ''/root'')])
   \<and> getExecutablesInPath posix example_fs [] (new_PathExecutableCache posix None)
         [(''HOME'', Some ''/root'')] None
       = (None, new_PathExecutableCache posix None, [])"
  using C3_absent_iff_no_path_resolved [of posix example_fs "[]"
      "new_PathExecutableCache posix None" "[(''HOME'', Some ''/root'')]" None]
  by (simp add: path_equivalent_def Object_keys_def posix_def)

section \<open>Invalidation\<close>

text \<open>
  C4, as the code has it. \<^verbatim>\<open>refresh\<close> clears the stored entry and the remembered PATH
  value whatever the instance holds, and touches nothing else; with nothing cached it leaves
  the instance as it is (it has no failing path). A lookup that finds the instance as
  \<^verbatim>\<open>refresh\<close> left it starts a scan of every directory of the resolved PATH string, also
  when that string is the one remembered before the \<^verbatim>\<open>refresh\<close>; run without
  interruption, it stores and returns the fresh entry.
\<close>

theorem C4_refresh_forces_rescan:
  "cachedExes (refresh this) = None \<and> cachedPathValue (refresh this) = None
   \<and> cachedWindowsExeExtensions (refresh this) = cachedWindowsExeExtensions this
   \<and> listening (refresh this) = listening this
   \<and> (cachedExes this = None \<and> cachedPathValue this = None \<longrightarrow> refresh this = this)
   \<and> (resolvePathValue host env shellType = Some pathValue \<longrightarrow>
        begin_lookup host (refresh this) env shellType
          = Fills \<lparr>fillPathValue = pathValue,
                   fillPromises = map (\<lambda>p. start_scan p (if isWindows host then [CHR 0x5C] else ''/''))
                                    (split_paths host pathValue),
                   fillLabels = {},
                   passedExts = replicate (length (split_paths host pathValue))
                                  (cachedWindowsExeExtensions this)\<rparr>
        \<and> (let exes = extractExecutables host fs (cachedWindowsExeExtensions this) schedule pathValue
           in getExecutablesInPath host fs schedule (refresh this) env shellType
                = (Some exes, this\<lparr>cachedPathValue := Some pathValue, cachedExes := Some exes\<rparr>,
                   split_paths host pathValue))
        \<and> split_paths host pathValue \<noteq> [])"
  by (simp add: refresh_def getExecutablesInPath_def begin_lookup_def Let_def)

text \<open>
  C4 as stated does not hold: a \<^verbatim>\<open>refresh\<close> that runs while a fill is in flight is
  undone when the fill reaches lines 94-95. A lookup of \<^verbatim>\<open>PATH=/a\<close> begins on a new
  instance and is suspended; \<^verbatim>\<open>refresh\<close> runs; the fill settles and stores its entry and
  its key. The next lookup of \<^verbatim>\<open>PATH=/a\<close> returns that entry and calls no scanner.
\<close>

theorem C4_refresh_during_fill_counterexample:
  "begin_lookup posix (new_PathExecutableCache posix None) [(''PATH'', Some ''/a'')] None
     = Fills fill_of_a
   \<and> publish (refresh (new_PathExecutableCache posix None)) ''/a''
        (await_all example_fs (refresh (new_PathExecutableCache posix None))
           (resume_scan example_fs (new_PathExecutableCache posix None) 0 fill_of_a))
     = (\<lparr>completionResources =
            [\<lparr>label = ''foo'', documentation = ''/a/foo'', kind = KindMethod\<rparr>],
          labels = {''foo''}\<rparr>, example_cached)
   \<and> getExecutablesInPath posix example_fs [] example_cached [(''PATH'', Some ''/a'')] None
     = (Some \<lparr>completionResources =
            [\<lparr>label = ''foo'', documentation = ''/a/foo'', kind = KindMethod\<rparr>],
          labels = {''foo''}\<rparr>, example_cached, [])"
  by code_simp

theorem C4_refresh_witness:
  "resolvePathValue posix [(''PATH'', Some ''/a'')] None = Some ''/a''
   \<and> cachedPathValue example_cached = Some ''/a''
   \<and> getExecutablesInPath posix example_fs [] (refresh example_cached)
        [(''PATH'', Some ''/a'')] None
      = (cachedExes example_cached, example_cached, [''/a''])"
proof -
  have r: "resolvePathValue posix [(''PATH'', Some ''/a'')] None = Some ''/a''"
    by (simp add: resolvePathValue_def posix_def env_get_def)
  have e: "extractExecutables posix example_fs None [] ''/a''
     = \<lparr>completionResources = [\<lparr>label = ''foo'', documentation = ''/a/foo'', kind = KindMethod\<rparr>],
               labels = {''foo''}\<rparr>"
    by code_simp
  have s: "split_paths posix ''/a'' = [''/a'']"
    by code_simp
  have n: "cachedWindowsExeExtensions example_cached = None"
    and k: "cachedPathValue example_cached = Some ''/a''"
    by (simp_all add: example_cached_def)
  from C4_refresh_forces_rescan [of example_cached posix "[(''PATH'', Some ''/a'')]" None "''/a''" example_fs "[]"] r
  have "getExecutablesInPath posix example_fs [] (refresh example_cached)
        [(''PATH'', Some ''/a'')] None
      = (Some (extractExecutables posix example_fs (cachedWindowsExeExtensions example_cached) [] ''/a''),
         example_cached\<lparr>cachedPathValue := Some ''/a'',
           cachedExes := Some (extractExecutables posix example_fs
                                 (cachedWindowsExeExtensions example_cached) [] ''/a'')\<rparr>,
         split_paths posix ''/a'')"
    by (simp add: Let_def)
  then have "getExecutablesInPath posix example_fs [] (refresh example_cached)
        [(''PATH'', Some ''/a'')] None
      = (cachedExes example_cached, example_cached, [''/a''])"
    by (simp add: n e s) (simp add: example_cached_def)
  with r k show ?thesis by simp
qed


section \<open>Serving from the cache\<close>







section \<open>Reaction to a configuration change\<close>

text \<open>
  C9, as the code has it. On Windows the constructor registers the configuration handler.
  While it is registered, a change that affects the executable-extensions setting stores the
  newly configured extensions and clears the stored entry, and changes nothing else: the
  remembered PATH string stays, and so does the whole watch store. A lookup that finds the
  instance as the handler left it, and resolves a PATH string, starts a scan of every
  directory of it with the new extensions; run without interruption, it returns the entry
  scanned with them. A change that does not affect the setting changes nothing.
\<close>

theorem C9_configuration_change_clears_entry:
  "(isWindows host \<longrightarrow> listening (new_PathExecutableCache host configured0))
   \<and> (listening (pathExecutableCache ext) \<longrightarrow>
        configuration_changed True configured ext
          = ext\<lparr>pathExecutableCache :=
                 (pathExecutableCache ext)\<lparr>cachedWindowsExeExtensions := configured,
                                            cachedExes := None\<rparr>\<rparr>
        \<and> watchState (configuration_changed True configured ext) = watchState ext
        \<and> cachedPathValue (pathExecutableCache (configuration_changed True configured ext))
            = cachedPathValue (pathExecutableCache ext)
        \<and> (resolvePathValue host env shellType = Some pathValue \<longrightarrow>
             begin_lookup host (pathExecutableCache (configuration_changed True configured ext))
                 env shellType
               = Fills \<lparr>fillPathValue = pathValue,
                   fillPromises = map (\<lambda>p. start_scan p (if isWindows host then [CHR 0x5C] else ''/''))
                                    (split_paths host pathValue),
                   fillLabels = {},
                   passedExts = replicate (length (split_paths host pathValue)) configured\<rparr>
             \<and> fst (getExecutablesInPath host fs schedule
                    (pathExecutableCache (configuration_changed True configured ext)) env shellType)
               = Some (extractExecutables host fs configured schedule pathValue)
             \<and> snd (snd (getExecutablesInPath host fs schedule
                    (pathExecutableCache (configuration_changed True configured ext)) env shellType))
               = split_paths host pathValue))
   \<and> configuration_changed False configured ext = ext"
  by (simp add: configuration_changed_def fire_configuration_change_def
      onDidChangeConfiguration_def new_PathExecutableCache_def getExecutablesInPath_def
      begin_lookup_def Let_def)

text \<open>
  C9 as stated does not hold: a change that arrives while a fill is in flight does not make
  the next lookup scan again. A lookup of \<^verbatim>\<open>Path=/w\<close> begins on a new instance with
  nothing configured; its scan awaits \<^verbatim>\<open>isExecutable\<close> of \<^verbatim>\<open>run.ps1\<close>, called with
  the old extensions, when the change to \<^verbatim>\<open>.ps1\<close> arrives. The fill settles and stores an
  entry without \<^verbatim>\<open>run.ps1\<close>; the next lookup of \<^verbatim>\<open>Path=/w\<close> returns that entry and
  calls no scanner, while a scan with the new extensions holds \<^verbatim>\<open>run.ps1\<close>.
\<close>

theorem C9_change_during_fill_counterexample:
  "begin_lookup windows (new_PathExecutableCache windows None) [(''Path'', Some ''/w'')] None
     = Fills fill_of_w
   \<and> fillPromises (fold (resume_scan windows_fs (new_PathExecutableCache windows None)) [0, 0, 0]
                      fill_of_w)
     = [\<lparr>path = ''/w'', pathSeparator = [CHR 0x5C], files = [(''tool.exe'', FileType_File)],
         result = [], at = AwaitIsExecutable ''run.ps1'' ''/w/run.ps1''\<rparr>]
   \<and> publish
        (fire_configuration_change True (Some [(''.ps1'', Some True)])
           (new_PathExecutableCache windows None)) ''/w''
        (await_all windows_fs
           (fire_configuration_change True (Some [(''.ps1'', Some True)])
              (new_PathExecutableCache windows None))
           (fold (resume_scan windows_fs (new_PathExecutableCache windows None)) [0, 0, 0]
              fill_of_w))
     = (\<lparr>completionResources =
            [\<lparr>label = ''tool.exe'', documentation = ''/w/tool.exe'', kind = KindMethod\<rparr>],
          labels = {''tool.exe''}\<rparr>,
        cached_w\<lparr>cachedWindowsExeExtensions := Some [(''.ps1'', Some True)]\<rparr>)
   \<and> getExecutablesInPath windows windows_fs []
        (cached_w\<lparr>cachedWindowsExeExtensions := Some [(''.ps1'', Some True)]\<rparr>)
        [(''Path'', Some ''/w'')] None
     = (Some \<lparr>completionResources =
            [\<lparr>label = ''tool.exe'', documentation = ''/w/tool.exe'', kind = KindMethod\<rparr>],
          labels = {''tool.exe''}\<rparr>,
        cached_w\<lparr>cachedWindowsExeExtensions := Some [(''.ps1'', Some True)]\<rparr>, [])
   \<and> extractExecutables windows windows_fs (Some [(''.ps1'', Some True)]) [] ''/w''
     = \<lparr>completionResources =
            [\<lparr>label = ''run.ps1'', documentation = ''/w/run.ps1'', kind = KindMethod\<rparr>,
             \<lparr>label = ''tool.exe'', documentation = ''/w/tool.exe'', kind = KindMethod\<rparr>],
          labels = {''run.ps1'', ''tool.exe''}\<rparr>"
  by code_simp

theorem C9_configuration_change_witness:
  "listening (pathExecutableCache windows_extension)
   \<and> resolvePathValue windows [(''Path'', Some ''/w'')] None = Some ''/w''
   \<and> cachedPathValue (pathExecutableCache windows_extension) = Some ''/w''
   \<and> watchState (configuration_changed True (Some [(''.ps1'', Some True)]) windows_extension)
       = watchState windows_extension
   \<and> fst (getExecutablesInPath windows windows_fs []
          (pathExecutableCache (configuration_changed True (Some [(''.ps1'', Some True)])
             windows_extension)) [(''Path'', Some ''/w'')] None)
       = Some \<lparr>completionResources =
            [\<lparr>label = ''run.ps1'', documentation = ''/w/run.ps1'', kind = KindMethod\<rparr>,
             \<lparr>label = ''tool.exe'', documentation = ''/w/tool.exe'', kind = KindMethod\<rparr>],
          labels = {''run.ps1'', ''tool.exe''}\<rparr>
   \<and> snd (snd (getExecutablesInPath windows windows_fs []
          (pathExecutableCache (configuration_changed True (Some [(''.ps1'', Some True)])
             windows_extension)) [(''Path'', Some ''/w'')] None)) = [''/w'']"
proof -
  have l: "listening (pathExecutableCache windows_extension)"
    and k: "cachedPathValue (pathExecutableCache windows_extension) = Some ''/w''"
    by (simp_all add: windows_extension_def cached_w_def)
  have r: "resolvePathValue windows [(''Path'', Some ''/w'')] None = Some ''/w''"
    by (simp add: resolvePathValue_def windows_def env_get_def Object_keys_def truthy_def
        toLowerCase_def toLowerCase_char_def)
  have s: "split_paths windows ''/w'' = [''/w'']"
    by code_simp
  have e: "extractExecutables windows windows_fs (Some [(''.ps1'', Some True)]) [] ''/w''
     = \<lparr>completionResources =
            [\<lparr>label = ''run.ps1'', documentation = ''/w/run.ps1'', kind = KindMethod\<rparr>,
             \<lparr>label = ''tool.exe'', documentation = ''/w/tool.exe'', kind = KindMethod\<rparr>],
          labels = {''run.ps1'', ''tool.exe''}\<rparr>"
    by code_simp
  note c = C9_configuration_change_clears_entry [where host = windows and ext = windows_extension
      and configured = "Some [(''.ps1'', Some True)]" and env = "[(''Path'', Some ''/w'')]"
      and shellType = None and pathValue = "''/w''" and fs = windows_fs and schedule = "[]"]
  from c l have w: "watchState (configuration_changed True (Some [(''.ps1'', Some True)])
      windows_extension) = watchState windows_extension"
    by blast
  from c l r have "fst (getExecutablesInPath windows windows_fs []
          (pathExecutableCache (configuration_changed True (Some [(''.ps1'', Some True)])
             windows_extension)) [(''Path'', Some ''/w'')] None)
       = Some (extractExecutables windows windows_fs (Some [(''.ps1'', Some True)]) [] ''/w'')"
    and "snd (snd (getExecutablesInPath windows windows_fs []
          (pathExecutableCache (configuration_changed True (Some [(''.ps1'', Some True)])
             windows_extension)) [(''Path'', Some ''/w'')] None)) = split_paths windows ''/w''"
    by blast+
  with l r k w e s show ?thesis
    by simp
qed


section \<open>What the watcher reads and registers\<close>

text \<open>
  C10. \<^verbatim>\<open>watchPathDirectories\<close> reads the environment through the key \<^verbatim>\<open>PATH\<close> only,
  compared exactly: two environments that agree on that key give the same watches, and the
  process-level PATH plays no part (the function takes no shell hint). For an environment
  without the key \<^verbatim>\<open>PATH\<close> it creates no watcher and no subscription. On Windows, for
  such an environment whose first key equal to \<^verbatim>\<open>path\<close> ignoring case (say \<^verbatim>\<open>Path\<close>) is
  bound to a string, \<^verbatim>\<open>getExecutablesInPath\<close> without the Git Bash hint nevertheless
  resolves that string and returns an entry.
\<close>

theorem C10_watcher_reads_exact_PATH_key:
  "(env_get env ''PATH'' = env_get env' ''PATH'' \<longrightarrow>
      watchPathDirectories host fs w env = watchPathDirectories host fs w env')
   \<and> watchPathDirectories (host\<lparr>process_env_PATH := p\<rparr>) fs w env
        = watchPathDirectories host fs w env
   \<and> (''PATH'' \<notin> set (Object_keys env) \<longrightarrow>
        watchers (watchPathDirectories host fs w env) = watchers w
        \<and> subscriptions (watchPathDirectories host fs w env) = subscriptions w)
   \<and> (isWindows host \<and> shellType \<noteq> Some GitBash \<and> ''PATH'' \<notin> set (Object_keys env)
        \<and> find (\<lambda>(key, v). equal_ignoring_case key ''path'') env = Some (key, Some pathValue) \<longrightarrow>
        watchers (watchPathDirectories host fs w env) = watchers w
        \<and> (\<exists>exes. fst (getExecutablesInPath host fs schedule this env shellType) = Some exes))"
proof -
  have a: "watchPathDirectories host fs w env = watchPathDirectories host fs w env'"
    if "env_get env ''PATH'' = env_get env' ''PATH''"
    using that by (simp add: watchPathDirectories_def pathDirectories_def)
  have b: "watchPathDirectories (host\<lparr>process_env_PATH := p\<rparr>) fs w env
        = watchPathDirectories host fs w env"
    by (simp add: watchPathDirectories_def pathDirectories_def)
  have c: "watchers (watchPathDirectories host fs w env) = watchers w
        \<and> subscriptions (watchPathDirectories host fs w env) = subscriptions w"
    if "''PATH'' \<notin> set (Object_keys env)"
  proof -
    from that have "map_of env ''PATH'' = None"
      by (simp add: map_of_eq_None_iff Object_keys_def)
    then have "pathDirectories host env = []"
      by (simp add: pathDirectories_def env_get_def)
    then show ?thesis
      by (simp add: watchPathDirectories_def)
  qed
  have d: "\<exists>exes. fst (getExecutablesInPath host fs schedule this env shellType) = Some exes"
    if "isWindows host" "shellType \<noteq> Some GitBash"
      "find (\<lambda>(key, v). equal_ignoring_case key ''path'') env = Some (key, Some pathValue)"
  proof -
    from that have "resolvePathValue host env shellType = Some pathValue"
      by (simp add: resolve_follows_policy PATH_resolution_policy_def)
    then show ?thesis
      by (simp add: getExecutablesInPath_def Let_def)
  qed
  from a b c d show ?thesis by blast
qed


theorem C10_watcher_witness:
  "''PATH'' \<notin> set (Object_keys [(''Path'', Some ''/a;/b'')])
   \<and> find (\<lambda>(key, v). equal_ignoring_case key ''path'') [(''Path'', Some ''/a;/b'')]
        = Some (''Path'', Some ''/a;/b'')
   \<and> watchers (watchPathDirectories windows example_fs no_watchers [(''Path'', Some ''/a;/b'')]) = []
   \<and> fst (getExecutablesInPath windows example_fs [] (new_PathExecutableCache windows None)
            [(''Path'', Some ''/a;/b'')] None)
       = Some \<lparr>completionResources =
                 [\<lparr>label = ''foo'', documentation = ''/a/foo'', kind = KindMethod\<rparr>],
               labels = {''foo''}\<rparr>"
proof -
  have k: "''PATH'' \<notin> set (Object_keys [(''Path'', Some ''/a;/b'')])"
    by (simp add: Object_keys_def)
  have f: "find (\<lambda>(key, v). equal_ignoring_case key ''path'') [(''Path'', Some ''/a;/b'')]
        = Some (''Path'', Some ''/a;/b'')"
    by (simp add: equal_ignoring_case_def toLowerCase_def toLowerCase_char_def)
  have w: "isWindows windows"
    by (simp add: windows_def)
  have e: "fst (getExecutablesInPath windows example_fs [] (new_PathExecutableCache windows None)
            [(''Path'', Some ''/a;/b'')] None)
       = Some \<lparr>completionResources =
                 [\<lparr>label = ''foo'', documentation = ''/a/foo'', kind = KindMethod\<rparr>],
               labels = {''foo''}\<rparr>"
    by code_simp
  from C10_watcher_reads_exact_PATH_key [of "[(''Path'', Some ''/a;/b'')]" "[(''Path'', Some ''/a;/b'')]" windows example_fs
      no_watchers None None "''Path''" "''/a;/b''" "[]" "new_PathExecutableCache windows None"] k f w
  have "watchers (watchPathDirectories windows example_fs no_watchers [(''Path'', Some ''/a;/b'')])
      = watchers no_watchers"
    by blast
  with k f e show ?thesis
    by (simp add: no_watchers_def)
qed


text \<open>
  C8. The claim: over all calls of \<^verbatim>\<open>watchPathDirectories\<close> a directory is watched at
  most once at a time. The function tests \<^verbatim>\<open>activeWatchers.has(dir)\<close> before it watches,
  adds the directory after, and deletes it when the watch is closed; but the set is created
  inside the call (line 173), so a second call starts from an empty set. Calling the
  function twice with \<^verbatim>\<open>PATH=/a\<close> leaves two open watchers on \<^verbatim>\<open>/a\<close>, each call having
  its own set that holds \<^verbatim>\<open>/a\<close>.
\<close>

theorem C8_second_invocation_watches_again:
  "watchPathDirectories posix example_fs
     (watchPathDirectories posix example_fs no_watchers [(''PATH'', Some ''/a'')])
     [(''PATH'', Some ''/a'')]
   = \<lparr>watchers = [(''/a'', True), (''/a'', True)],
      registries = [{''/a''}, {''/a''}],
      subscriptions = [(0, 0, ''/a''), (1, 1, ''/a'')]\<rparr>
   \<and> open_watches
        (watchPathDirectories posix example_fs
          (watchPathDirectories posix example_fs no_watchers [(''PATH'', Some ''/a'')])
          [(''PATH'', Some ''/a'')]) ''/a'' = 2"
  by code_simp


section \<open>Labels of one pass\<close>

text \<open>
  C1. The claim: the merged result of one pass never holds two resources with the same
  label. For a regular file, \<^verbatim>\<open>labels.has(file)\<close> (line 141) and \<^verbatim>\<open>labels.add(file)\<close>
  (line 155) are separated by \<^verbatim>\<open>await isExecutable(...)\<close> (line 145). With
  \<^verbatim>\<open>PATH=/a:/b\<close>, both directories holding an executable regular file \<^verbatim>\<open>foo\<close>, and the
  two scans resumed in turn, both scans pass the test before either adds the label: the
  entry returned and stored holds two resources labelled \<^verbatim>\<open>foo\<close>.
\<close>

theorem C1_interleaved_scans_duplicate_label:
  "getExecutablesInPath posix example_fs [0, 1, 0, 1, 0, 1] (new_PathExecutableCache posix None)
      [(''PATH'', Some ''/a:/b'')] None
   = (Some \<lparr>completionResources =
               [\<lparr>label = ''foo'', documentation = ''/a/foo'', kind = KindMethod\<rparr>,
                \<lparr>label = ''foo'', documentation = ''/b/foo'', kind = KindMethod\<rparr>],
             labels = {''foo''}\<rparr>,
      \<lparr>cachedPathValue = Some ''/a:/b'', cachedWindowsExeExtensions = None,
       cachedExes = Some \<lparr>completionResources =
               [\<lparr>label = ''foo'', documentation = ''/a/foo'', kind = KindMethod\<rparr>,
                \<lparr>label = ''foo'', documentation = ''/b/foo'', kind = KindMethod\<rparr>],
             labels = {''foo''}\<rparr>,
       listening = False\<rparr>,
      [''/a'', ''/b''])"
  by code_simp


text \<open>When the scan of \<^verbatim>\<open>/a\<close> returns before that of \<^verbatim>\<open>/b\<close> starts, only one is kept.\<close>

lemma uninterrupted_scans_example:
  "fst (getExecutablesInPath posix example_fs [] (new_PathExecutableCache posix None)
      [(''PATH'', Some ''/a:/b'')] None)
   = Some \<lparr>completionResources =
               [\<lparr>label = ''foo'', documentation = ''/a/foo'', kind = KindMethod\<rparr>],
             labels = {''foo''}\<rparr>"
  by code_simp



section \<open>Failure of a scan\<close>

lemma doomed_step:
  assumes "doomed fs exts t"
  shows "doomed fs exts (fst (scan_step fs exts t lbls)) \<and> snd (scan_step fs exts t lbls) = lbls"
proof (cases "at t")
  case AwaitStat
  with assms show ?thesis
    by (cases "stat_isDirectory fs (path t)") (auto simp: doomed_def scan_step_def)
next
  case AwaitReadDirectory
  with assms show ?thesis
    by (simp add: doomed_def scan_step_def)
next
  case (AwaitIsExecutable name formattedPath)
  with assms show ?thesis
    by (simp add: doomed_def scan_step_def)
next
  case (Returned r)
  with assms show ?thesis
    by (simp add: doomed_def scan_step_def)
qed (use assms in \<open>simp_all add: doomed_def\<close>)

lemma doomed_run:
  "doomed fs exts t \<Longrightarrow> run_to_completion fs exts t lbls = (None, lbls)"
proof (induction fs exts t lbls rule: run_to_completion.induct)
  case (1 fs exts t lbls)
  show ?case
  proof (cases "settled t")
    case True
    with "1.prems" have "returned t = None"
      by (auto simp: settled_def returned_def doomed_def split: ScanPoint.splits)
    with True show ?thesis
      by (simp add: run_to_completion.simps)
  next
    case False
    obtain t' lbls' where s: "scan_step fs exts t lbls = (t', lbls')"
      by (cases "scan_step fs exts t lbls")
    with doomed_step [OF "1.prems", of lbls] have d: "doomed fs exts t'" and l: "lbls' = lbls"
      by simp_all
    from "1.IH" [OF False s [symmetric] d] have "run_to_completion fs exts t' lbls' = (None, lbls')" .
    with False s l show ?thesis
      by (simp add: run_to_completion.simps [of fs exts t lbls])
  qed
qed

lemma resume_length: "length (fst (resume fs exts i ts lbls)) = length ts"
  by (simp add: resume_def split: prod.splits)

lemma resume_doomed:
  assumes "j < length ts" and "doomed fs exts (ts ! j)"
  shows "doomed fs exts (fst (resume fs exts i ts lbls) ! j)"
proof (cases "i < length ts")
  case True
  obtain t' lbls' where s: "scan_step fs exts (ts ! i) lbls = (t', lbls')"
    by (cases "scan_step fs exts (ts ! i) lbls")
  show ?thesis
  proof (cases "i = j")
    case True
    with doomed_step [OF assms(2), of lbls] s assms(1) show ?thesis
      by (simp add: resume_def)
  next
    case False
    with True s assms show ?thesis
      by (simp add: resume_def)
  qed
next
  case False
  with assms show ?thesis by (simp add: resume_def)
qed

lemma interleave_doomed:
  "j < length ts \<Longrightarrow> doomed fs exts (ts ! j) \<Longrightarrow>
     length (fst (interleave fs exts schedule ts lbls)) = length ts
     \<and> doomed fs exts (fst (interleave fs exts schedule ts lbls) ! j)"
proof (induction schedule arbitrary: ts lbls)
  case Nil
  then show ?case by simp
next
  case (Cons i schedule)
  obtain ts' lbls' where r: "resume fs exts i ts lbls = (ts', lbls')"
    by (cases "resume fs exts i ts lbls")
  with resume_length [of fs exts i ts lbls] have len: "length ts' = length ts"
    by simp
  from resume_doomed [OF Cons.prems, of i lbls] r have "doomed fs exts (ts' ! j)"
    by simp
  with Cons.IH [of ts' lbls'] Cons.prems(1) len r show ?case
    by simp
qed

lemma settle_all_doomed:
  "j < length ts \<Longrightarrow> doomed fs exts (ts ! j) \<Longrightarrow> fst (settle_all fs exts ts lbls) ! j = None"
proof (induction ts arbitrary: j lbls)
  case Nil
  then show ?case by simp
next
  case (Cons t ts)
  show ?case
  proof (cases j)
    case 0
    with Cons.prems doomed_run [of fs exts t lbls] show ?thesis
      by (simp split: prod.splits)
  next
    case (Suc k)
    obtain r lbls1 where a: "run_to_completion fs exts t lbls = (r, lbls1)"
      by (cases "run_to_completion fs exts t lbls")
    obtain rs lbls2 where b: "settle_all fs exts ts lbls1 = (rs, lbls2)"
      by (cases "settle_all fs exts ts lbls1")
    from Suc Cons.prems Cons.IH [of k lbls1] b have "rs ! k = None"
      by simp
    with Suc a b show ?thesis
      by simp
  qed
qed

lemma Promise_all_doomed:
  assumes "j < length ts" and "doomed fs exts (ts ! j)"
  shows "fst (Promise_all fs exts schedule ts lbls) ! j = None"
proof -
  obtain ts' lbls' where i: "interleave fs exts schedule ts lbls = (ts', lbls')"
    by (cases "interleave fs exts schedule ts lbls")
  with interleave_doomed [OF assms, of schedule lbls]
  have "j < length ts'" and "doomed fs exts (ts' ! j)"
    using assms(1) by simp_all
  then have "fst (settle_all fs exts ts' lbls') ! j = None"
    by (rule settle_all_doomed)
  with i show ?thesis
    by (simp add: Promise_all_def)
qed

lemma merge_results_absent:
  "i < length rs \<Longrightarrow> rs ! i = None \<Longrightarrow>
     merge_results rs = merge_results (take i rs) @ merge_results (drop (Suc i) rs)"
proof -
  assume a: "i < length rs" "rs ! i = None"
  then have "rs = take i rs @ None # drop (Suc i) rs"
    by (metis id_take_nth_drop)
  then have "merge_results rs = merge_results (take i rs @ None # drop (Suc i) rs)"
    by simp
  then show ?thesis
    by (simp add: merge_results_def)
qed


lemma interleave_length: "length (fst (interleave fs exts schedule ts lbls)) = length ts"
proof (induction schedule arbitrary: ts lbls)
  case Nil
  show ?case by simp
next
  case (Cons i schedule)
  obtain ts' lbls' where r: "resume fs exts i ts lbls = (ts', lbls')"
    by (cases "resume fs exts i ts lbls")
  with resume_length [of fs exts i ts lbls] Cons.IH [of ts' lbls'] show ?case
    by simp
qed

lemma settle_all_length: "length (fst (settle_all fs exts ts lbls)) = length ts"
proof (induction ts arbitrary: lbls)
  case Nil
  show ?case by simp
next
  case (Cons t ts)
  obtain r lbls1 where a: "run_to_completion fs exts t lbls = (r, lbls1)"
    by (cases "run_to_completion fs exts t lbls")
  obtain rs lbls2 where b: "settle_all fs exts ts lbls1 = (rs, lbls2)"
    by (cases "settle_all fs exts ts lbls1")
  from Cons.IH [of lbls1] a b show ?case
    by simp
qed

lemma Promise_all_length: "length (fst (Promise_all fs exts schedule ts lbls)) = length ts"
proof -
  obtain ts' lbls' where i: "interleave fs exts schedule ts lbls = (ts', lbls')"
    by (cases "interleave fs exts schedule ts lbls")
  with interleave_length [of fs exts schedule ts lbls] settle_all_length [of fs exts ts' lbls']
  show ?thesis
    by (simp add: Promise_all_def)
qed

text \<open>
  C6. When \<^verbatim>\<open>fs.stat\<close> fails on the path or reports something that is not a directory,
  the scan returns \<^verbatim>\<open>undefined\<close> at its first resumption, raising nothing and leaving
  the labels alone. Among the scans of one pass, resumed in any order, a scan whose
  \<^verbatim>\<open>fs.stat\<close> does so, or whose \<^verbatim>\<open>readDirectory\<close> fails, or whose awaited
  \<^verbatim>\<open>isExecutable\<close> of line 145 fails (whatever its \<^verbatim>\<open>result\<close> holds by then), settles
  to \<^verbatim>\<open>undefined\<close>, and the merged resources are those of the other scans.
\<close>

theorem C6_failing_scan_returns_absent:
  "(stat_isDirectory fs p \<noteq> Some True \<longrightarrow>
      scan_step fs exts (start_scan p sep) lbls = ((start_scan p sep)\<lparr>at := Returned None\<rparr>, lbls)
      \<and> run_to_completion fs exts (start_scan p sep) lbls = (None, lbls))
   \<and> (i < length ts
        \<and> (at (ts ! i) = AwaitStat \<and> stat_isDirectory fs (path (ts ! i)) \<noteq> Some True
            \<or> (at (ts ! i) = AwaitStat \<or> at (ts ! i) = AwaitReadDirectory)
                \<and> readDirectory fs (path (ts ! i)) = None
            \<or> at (ts ! i) = AwaitIsExecutable name formattedPath
                \<and> isExecutable fs formattedPath exts = None)
       \<longrightarrow> fst (Promise_all fs exts schedule ts lbls) ! i = None
           \<and> merge_results (fst (Promise_all fs exts schedule ts lbls))
               = merge_results (take i (fst (Promise_all fs exts schedule ts lbls)))
                 @ merge_results (drop (Suc i) (fst (Promise_all fs exts schedule ts lbls))))"
proof (intro conjI impI)
  assume n: "stat_isDirectory fs p \<noteq> Some True"
  then show "scan_step fs exts (start_scan p sep) lbls
      = ((start_scan p sep)\<lparr>at := Returned None\<rparr>, lbls)"
    by (cases "stat_isDirectory fs p") (auto simp: scan_step_def start_scan_def)
  from n have "doomed fs exts (start_scan p sep)"
    by (simp add: doomed_def start_scan_def)
  then show "run_to_completion fs exts (start_scan p sep) lbls = (None, lbls)"
    by (rule doomed_run)
next
  assume a: "i < length ts
        \<and> (at (ts ! i) = AwaitStat \<and> stat_isDirectory fs (path (ts ! i)) \<noteq> Some True
            \<or> (at (ts ! i) = AwaitStat \<or> at (ts ! i) = AwaitReadDirectory)
                \<and> readDirectory fs (path (ts ! i)) = None
            \<or> at (ts ! i) = AwaitIsExecutable name formattedPath
                \<and> isExecutable fs formattedPath exts = None)"
  then have "doomed fs exts (ts ! i)"
    by (auto simp: doomed_def)
  with a show none: "fst (Promise_all fs exts schedule ts lbls) ! i = None"
    by (simp add: Promise_all_doomed)
  from a have "i < length (fst (Promise_all fs exts schedule ts lbls))"
    by (simp add: Promise_all_length)
  then show "merge_results (fst (Promise_all fs exts schedule ts lbls))
               = merge_results (take i (fst (Promise_all fs exts schedule ts lbls)))
                 @ merge_results (drop (Suc i) (fst (Promise_all fs exts schedule ts lbls)))"
    using none by (rule merge_results_absent)
qed

theorem C6_failing_scan_witness:
  "stat_isDirectory example_fs ''/etc/hosts'' = Some False
   \<and> run_to_completion example_fs None (start_scan ''/etc/hosts'' ''/'') {} = (None, {})
   \<and> stat_isDirectory example_fs ''/nowhere'' = None
   \<and> fst (Promise_all example_fs None [1, 0, 1]
            [start_scan ''/nowhere'' ''/'', start_scan ''/a'' ''/''] {}) ! 0 = None
   \<and> isExecutable example_fs ''/d/bad'' None = None
   \<and> fst (Promise_all example_fs None [] [suspended_in_d] {''ok''}) ! 0 = None"
proof -
  have a: "stat_isDirectory example_fs ''/etc/hosts'' = Some False"
    and b: "stat_isDirectory example_fs ''/nowhere'' = None"
    and c: "isExecutable example_fs ''/d/bad'' None = None"
    by (simp_all add: example_fs_def)
  have s: "at ([start_scan ''/nowhere'' ''/'', start_scan ''/a'' ''/''] ! 0) = AwaitStat"
      "path ([start_scan ''/nowhere'' ''/'', start_scan ''/a'' ''/''] ! 0) = ''/nowhere''"
      "at ([suspended_in_d] ! 0) = AwaitIsExecutable ''bad'' ''/d/bad''"
    by (simp_all add: start_scan_def suspended_in_d_def)
  from C6_failing_scan_returns_absent [where fs = example_fs and p = "''/etc/hosts''" and exts = None and sep = "''/''"
      and lbls = "{}"] a
  have 1: "run_to_completion example_fs None (start_scan ''/etc/hosts'' ''/'') {} = (None, {})"
    by simp
  from C6_failing_scan_returns_absent [where fs = example_fs and exts = None and i = 0
      and ts = "[start_scan ''/nowhere'' ''/'', start_scan ''/a'' ''/'']"
      and schedule = "[1, 0, 1]" and lbls = "{}"] b s
  have 2: "fst (Promise_all example_fs None [1, 0, 1]
            [start_scan ''/nowhere'' ''/'', start_scan ''/a'' ''/''] {}) ! 0 = None"
    by simp
  from C6_failing_scan_returns_absent [where fs = example_fs and exts = None and i = 0 and ts = "[suspended_in_d]"
      and name = "''bad''" and formattedPath = "''/d/bad''" and schedule = "[]"
      and lbls = "{''ok''}"] c s
  have 3: "fst (Promise_all example_fs None [] [suspended_in_d] {''ok''}) ! 0 = None"
    by simp
  from a b c 1 2 3 show ?thesis by simp
qed


text \<open>
  The names accepted before the failure stay in the shared \<^verbatim>\<open>labels\<close>: scanning
  \<^verbatim>\<open>/d\<close> returns \<^verbatim>\<open>undefined\<close> and leaves \<^verbatim>\<open>ok\<close> there.
\<close>

lemma aborted_scan_example:
  "run_to_completion example_fs None (start_scan ''/d'' ''/'') {} = (None, {''ok''})"
  by code_simp



section \<open>Symbolic links\<close>

lemma next_file_result [simp]: "result (next_file t entries) = result t"
  by (induction entries arbitrary: t) auto

lemma next_file_returns: "returns_its_result (next_file t entries)"
  by (induction entries arbitrary: t) (auto simp: returns_its_result_def split: if_splits)

lemma suspended_returns:
  "(\<And>r. a \<noteq> Returned (Some r)) \<Longrightarrow> returns_its_result (t\<lparr>at := a\<rparr>)"
  by (simp add: returns_its_result_def)

lemma scan_step_returns:
  assumes "returns_its_result t"
  shows "returns_its_result (fst (scan_step fs exts t lbls))"
proof (cases "at t")
  case (Returned r)
  with assms show ?thesis
    by (simp add: scan_step_def)
qed (auto simp: scan_step_def Let_def add_resource_def next_file_returns suspended_returns
    split: option.splits bool.splits)

lemma scan_step_result:
  assumes "x \<in> set (result t)"
  shows "at (fst (scan_step fs exts t lbls)) = Returned None
     \<or> x \<in> set (result (fst (scan_step fs exts t lbls)))"
  using assms
  by (cases "at t")
    (auto simp: scan_step_def Let_def add_resource_def split: option.splits bool.splits)

lemma scan_step_keeps:
  assumes "returns_its_result t" and "x \<in> set (result t)"
  shows "returns_its_result (fst (scan_step fs exts t lbls))
     \<and> (at (fst (scan_step fs exts t lbls)) = Returned None
          \<or> x \<in> set (result (fst (scan_step fs exts t lbls))))"
  using scan_step_returns [OF assms(1)] scan_step_result [OF assms(2)] by simp

lemma Returned_None_stays:
  "at t = Returned None \<Longrightarrow> at (resumed_with fs exts t later) = Returned None"
  by (induction later arbitrary: t) (simp_all add: scan_step_def)

lemma resumed_with_keeps:
  "returns_its_result t \<Longrightarrow> x \<in> set (result t)
     \<Longrightarrow> at (resumed_with fs exts t later) = Returned (Some r) \<Longrightarrow> x \<in> set r"
proof (induction later arbitrary: t)
  case Nil
  then show ?case by (simp add: returns_its_result_def)
next
  case (Cons lbls later)
  let ?t' = "fst (scan_step fs exts t lbls)"
  from scan_step_keeps [OF Cons.prems(1,2), of fs exts lbls]
  have k: "returns_its_result ?t'" and d: "at ?t' = Returned None \<or> x \<in> set (result ?t')"
    by simp_all
  from d show ?case
  proof
    assume "at ?t' = Returned None"
    then have "at (resumed_with fs exts ?t' later) = Returned None"
      by (rule Returned_None_stays)
    with Cons.prems(3) show ?thesis by simp
  next
    assume "x \<in> set (result ?t')"
    with k Cons.IH [of ?t'] Cons.prems(3) show ?thesis by simp
  qed
qed

text \<open>
  C7, as the code has it. Take an entry that reaches the \<^verbatim>\<open>lstat\<close> of line 119 and is a
  symbolic link. The scan then awaits \<^verbatim>\<open>realpath\<close>. If that fails, the scan goes on to
  the next entry with its result and the labels as they were. If it gives a target, the scan
  awaits \<^verbatim>\<open>isExecutable\<close> of the target; unless that answers yes the entry is skipped.
  If it answers yes and the entry's name is not in the shared labels at that moment, the
  name is added to the labels and the resource with the entry's name, the documentation
  \<^verbatim>\<open>link -> target\<close> and the kind \<^verbatim>\<open>Method\<close> is added to the result; whenever the scan
  later returns a set, however it is resumed, the set holds that resource.
\<close>

theorem C7_symlink_entry:
  assumes "at t = AwaitLstat name"
    and "lstat_isSymbolicLink fs (resource_fsPath fs (path t) name) = Some True"
  shows "scan_step fs exts t lbls1 = (t\<lparr>at := AwaitRealpath name\<rparr>, lbls1)
    \<and> (realpath fs (resource_fsPath fs (path t) name) = None \<longrightarrow>
         scan_step fs exts (t\<lparr>at := AwaitRealpath name\<rparr>) lbls2 = (next_file t (files t), lbls2)
         \<and> result (next_file t (files t)) = result t)
    \<and> (realpath fs (resource_fsPath fs (path t) name) = Some target \<longrightarrow>
         scan_step fs exts (t\<lparr>at := AwaitRealpath name\<rparr>) lbls2
           = (t\<lparr>at := AwaitIsExecutableLink name target\<rparr>, lbls2)
         \<and> (isExecutable fs target exts \<noteq> Some True \<longrightarrow>
              scan_step fs exts (t\<lparr>at := AwaitIsExecutableLink name target\<rparr>) lbls3
                = (next_file t (files t), lbls3))
         \<and> (isExecutable fs target exts = Some True \<and> name \<notin> lbls3 \<longrightarrow>
              snd (scan_step fs exts (t\<lparr>at := AwaitIsExecutableLink name target\<rparr>) lbls3)
                = insert name lbls3
              \<and> result (fst (scan_step fs exts (t\<lparr>at := AwaitIsExecutableLink name target\<rparr>) lbls3))
                = result t @ [\<lparr>label = name,
                     documentation = resource_fsPath fs (path t) name @ '' -> '' @ target,
                     kind = KindMethod\<rparr>]
              \<and> (at (resumed_with fs exts
                        (fst (scan_step fs exts (t\<lparr>at := AwaitIsExecutableLink name target\<rparr>) lbls3))
                        later) = Returned (Some r) \<longrightarrow>
                   \<lparr>label = name,
                     documentation = resource_fsPath fs (path t) name @ '' -> '' @ target,
                     kind = KindMethod\<rparr> \<in> set r)))"
proof -
  let ?link = "resource_fsPath fs (path t) name"
  let ?t2 = "t\<lparr>at := AwaitIsExecutableLink name target\<rparr>"
  let ?res = "\<lparr>label = name, documentation = ?link @ '' -> '' @ target, kind = KindMethod\<rparr>"
  have 1: "scan_step fs exts t lbls1 = (t\<lparr>at := AwaitRealpath name\<rparr>, lbls1)"
    using assms by (simp add: scan_step_def)
  have 2: "scan_step fs exts (t\<lparr>at := AwaitRealpath name\<rparr>) lbls2 = (next_file t (files t), lbls2)"
    if "realpath fs ?link = None"
  proof -
    have "next_file (t\<lparr>at := AwaitRealpath name\<rparr>) es = next_file t es" for es
      by (induction es) auto
    with that show ?thesis by (simp add: scan_step_def)
  qed
  have 3: "scan_step fs exts (t\<lparr>at := AwaitRealpath name\<rparr>) lbls2 = (?t2, lbls2)"
    if "realpath fs ?link = Some target"
    using that by (simp add: scan_step_def)
  have nf: "next_file (u\<lparr>at := a\<rparr>) es = next_file u es" for u a es
    by (induction es) auto
  have 4: "scan_step fs exts ?t2 lbls3 = (next_file t (files t), lbls3)"
    if "isExecutable fs target exts \<noteq> Some True"
    using that by (cases "isExecutable fs target exts") (auto simp: scan_step_def nf)
  let ?t3 = "fst (scan_step fs exts ?t2 lbls3)"
  have 5: "snd (scan_step fs exts ?t2 lbls3) = insert name lbls3"
    and 6: "result ?t3 = result t @ [?res]"
    and 7: "returns_its_result ?t3"
    if "isExecutable fs target exts = Some True" "name \<notin> lbls3"
    using that by (simp_all add: scan_step_def add_resource_def next_file_returns)
  have 8: "?res \<in> set r"
    if "isExecutable fs target exts = Some True" "name \<notin> lbls3"
      "at (resumed_with fs exts ?t3 later) = Returned (Some r)"
  proof -
    from 6 [OF that(1,2)] have m: "?res \<in> set (result ?t3)" by simp
    show ?thesis
      by (rule resumed_with_keeps [OF 7 [OF that(1,2)] m that(3)])
  qed
  from 1 2 3 4 5 6 8 show ?thesis
    by simp
qed

text \<open>
  C7 as stated does not hold: the link \<^verbatim>\<open>/c/foo\<close> resolves to \<^verbatim>\<open>/opt/foo\<close>, which is
  executable, but with \<^verbatim>\<open>PATH=/a:/c\<close> the name \<^verbatim>\<open>foo\<close> is taken by \<^verbatim>\<open>/a/foo\<close> when
  the link is reached (line 141), and the result holds no resource for the link.
\<close>

theorem C7_label_taken_counterexample:
  "lstat_isSymbolicLink example_fs (resource_fsPath example_fs ''/c'' ''foo'') = Some True
   \<and> realpath example_fs (resource_fsPath example_fs ''/c'' ''foo'') = Some ''/opt/foo''
   \<and> isExecutable example_fs ''/opt/foo'' None = Some True
   \<and> fst (getExecutablesInPath posix example_fs [] (new_PathExecutableCache posix None)
        [(''PATH'', Some ''/a:/c'')] None)
     = Some \<lparr>completionResources =
               [\<lparr>label = ''foo'', documentation = ''/a/foo'', kind = KindMethod\<rparr>,
                \<lparr>label = ''tool'', documentation = ''/c/tool -> /opt/tool'', kind = KindMethod\<rparr>],
             labels = {''foo'', ''tool''}\<rparr>"
  by code_simp

theorem C7_symlink_entry_witness:
  "at suspended_in_c = AwaitLstat ''tool''
   \<and> lstat_isSymbolicLink example_fs (resource_fsPath example_fs (path suspended_in_c) ''tool'') = Some True
   \<and> realpath example_fs (resource_fsPath example_fs (path suspended_in_c) ''tool'') = Some ''/opt/tool''
   \<and> isExecutable example_fs ''/opt/tool'' None = Some True
   \<and> ''tool'' \<notin> {''foo''}
   \<and> snd (scan_step example_fs None
             (suspended_in_c\<lparr>at := AwaitIsExecutableLink ''tool'' ''/opt/tool''\<rparr>) {''foo''})
       = {''tool'', ''foo''}
   \<and> result (fst (scan_step example_fs None
             (suspended_in_c\<lparr>at := AwaitIsExecutableLink ''tool'' ''/opt/tool''\<rparr>) {''foo''}))
       = [\<lparr>label = ''tool'', documentation = ''/c/tool -> /opt/tool'', kind = KindMethod\<rparr>]"
proof -
  have a: "at suspended_in_c = AwaitLstat ''tool''"
    and p: "path suspended_in_c = ''/c''"
    and r0: "result suspended_in_c = []"
    by (simp_all add: suspended_in_c_def)
  have l: "lstat_isSymbolicLink example_fs (resource_fsPath example_fs (path suspended_in_c) ''tool'') = Some True"
    and rp: "realpath example_fs (resource_fsPath example_fs (path suspended_in_c) ''tool'') = Some ''/opt/tool''"
    and e: "isExecutable example_fs ''/opt/tool'' None = Some True"
    and fp: "resource_fsPath example_fs ''/c'' ''tool'' = ''/c/tool''"
    by (simp_all add: example_fs_def p)
  have n: "''tool'' \<notin> {''foo''}"
    by simp
  note c = C7_symlink_entry [OF a l, where exts = None and target = "''/opt/tool''" and ?lbls3.0 = "{''foo''}"
      and later = "[]"]
  let ?s = "scan_step example_fs None
      (suspended_in_c\<lparr>at := AwaitIsExecutableLink ''tool'' ''/opt/tool''\<rparr>) {''foo''}"
  from c rp e n have s: "snd ?s = insert ''tool'' {''foo''}"
    and r: "result (fst ?s) = result suspended_in_c
        @ [\<lparr>label = ''tool'',
             documentation = resource_fsPath example_fs (path suspended_in_c) ''tool'' @ '' -> '' @ ''/opt/tool'',
             kind = KindMethod\<rparr>]"
    by blast+
  from r have "result (fst ?s)
      = [\<lparr>label = ''tool'', documentation = ''/c/tool -> /opt/tool'', kind = KindMethod\<rparr>]"
    by (simp add: p r0 fp)
  with a l rp e n s show ?thesis by simp
qed



section \<open>One call of the watcher\<close>

text \<open>
  Within one call the directories are distinct, so a call opens at most one watcher on a
  directory; and a disposable closes its watcher and removes its directory from the set of
  its call.
\<close>

lemma Set_add_distinct: "distinct xs \<Longrightarrow> distinct (Set_add xs x)"
  by (simp add: Set_add_def)

lemma fold_Set_add_distinct:
  "distinct acc \<Longrightarrow> distinct (fold (\<lambda>p dirs. Set_add dirs p) ps acc)"
  by (induction ps arbitrary: acc) (simp_all add: Set_add_distinct)

lemma pathDirectories_distinct: "distinct (pathDirectories host env)"
  by (simp add: pathDirectories_def fold_Set_add_distinct split: option.splits)

lemma open_watches_append:
  "open_watches (w\<lparr>watchers := watchers w @ [(d, True)], registries := rs, subscriptions := ss\<rparr>) dir
     = open_watches w dir + (if d = dir then 1 else 0)"
  by (simp add: open_watches_def)

lemma watch_directory_opens:
  "open_watches (watch_directory fs call d w) dir
     \<le> open_watches w dir + (if d = dir then 1 else 0)"
  by (simp add: watch_directory_def open_watches_append split: option.splits)

lemma fold_watch_directory_opens:
  "distinct ds \<Longrightarrow>
     open_watches (fold (watch_directory fs call) ds w) dir
       \<le> open_watches w dir + (if dir \<in> set ds then 1 else 0)"
proof (induction ds arbitrary: w)
  case Nil
  show ?case by simp
next
  case (Cons d ds)
  from Cons.prems have "distinct ds" and "d \<notin> set ds"
    by simp_all
  from Cons.IH [OF \<open>distinct ds\<close>, of "watch_directory fs call d w"]
    watch_directory_opens [of fs call d w dir] \<open>d \<notin> set ds\<close>
  show ?case
    by (auto split: if_splits)
qed

lemma one_call_opens_at_most_one_watch:
  "open_watches (watchPathDirectories host fs w env) dir \<le> open_watches w dir + 1"
proof -
  let ?w0 = "w\<lparr>registries := registries w @ [{}]\<rparr>"
  have "open_watches ?w0 dir = open_watches w dir"
    by (simp add: open_watches_def)
  with fold_watch_directory_opens [OF pathDirectories_distinct, of fs "length (registries w)" host env ?w0 dir]
  show ?thesis
    by (simp add: watchPathDirectories_def Let_def split: if_splits)
qed

lemma dispose_subscription_releases:
  "dir \<notin> activeWatchers (dispose_subscription (watcher, call, dir) w) call
   \<and> (watcher < length (watchers w) \<longrightarrow>
        watchers (dispose_subscription (watcher, call, dir) w) ! watcher = (dir, False))"
  by (simp add: dispose_subscription_def activeWatchers_def)


section \<open>Scans that are not interleaved\<close>

text \<open>
  When every scan of a pass runs to its end before the next one is resumed (the empty
  schedule), no two resources of the merged result share a label. \<open>apart lbls0 t lbls\<close>
  holds of a scan \<open>t\<close> that found the labels \<open>lbls0\<close> when it started: the labels of its
  result are distinct and were added since, and a name it is about to add after line 145 is
  not among the labels.
\<close>

definition apart :: "string set \<Rightarrow> ScanTask \<Rightarrow> string set \<Rightarrow> bool" where
  "apart lbls0 t lbls =
     (distinct (map label (result t)) \<and> label ` set (result t) \<subseteq> lbls - lbls0
      \<and> lbls0 \<subseteq> lbls \<and> returns_its_result t
      \<and> (\<forall>name formattedPath. at t = AwaitIsExecutable name formattedPath \<longrightarrow> name \<notin> lbls))"


lemma next_file_at:
  "at (next_file t entries) = Returned (Some (result t))
     \<or> (\<exists>name. at (next_file t entries) = AwaitLstat name)"
proof (induction entries arbitrary: t)
  case Nil
  show ?case by simp
next
  case (Cons e entries)
  obtain name fileType where e: "e = (name, fileType)"
    by (cases e)
  show ?case
  proof (cases "fileType = FileType_Unknown \<or> fileType = FileType_Directory")
    case True
    with e Cons.IH [of t] show ?thesis by auto
  next
    case False
    with e show ?thesis by simp
  qed
qed

lemma apart_next_file:
  assumes "distinct (map label (result t))" "label ` set (result t) \<subseteq> lbls - lbls0" "lbls0 \<subseteq> lbls"
  shows "apart lbls0 (next_file t entries) lbls"
  using assms next_file_at [of t entries]
  by (auto simp: apart_def next_file_returns)

lemma apart_add_resource:
  assumes "apart lbls0 t lbls" and "name \<notin> lbls"
  shows "apart lbls0 (fst (add_resource t lbls name formattedPath))
           (snd (add_resource t lbls name formattedPath))"
proof -
  let ?u = "t\<lparr>result := result t @ [\<lparr>label = name, documentation = formattedPath, kind = KindMethod\<rparr>]\<rparr>"
  from assms have "distinct (map label (result ?u))"
    and "label ` set (result ?u) \<subseteq> insert name lbls - lbls0"
    and "lbls0 \<subseteq> insert name lbls"
    by (auto simp: apart_def)
  then have "apart lbls0 (next_file ?u (files t)) (insert name lbls)"
    by (rule apart_next_file)
  then show ?thesis
    by (simp add: add_resource_def)
qed

lemma apart_step:
  assumes "apart lbls0 t lbls"
  shows "apart lbls0 (fst (scan_step fs exts t lbls)) (snd (scan_step fs exts t lbls))"
proof -
  from assms have d: "distinct (map label (result t))" "label ` set (result t) \<subseteq> lbls - lbls0"
      "lbls0 \<subseteq> lbls"
    by (simp_all add: apart_def)
  have nf: "apart lbls0 (next_file t entries) lbls" for entries
    using d by (rule apart_next_file)
  have su: "apart lbls0 (t\<lparr>at := a\<rparr>) lbls"
    if "\<And>r. a \<noteq> Returned (Some r)" "\<And>n p. a = AwaitIsExecutable n p \<Longrightarrow> n \<notin> lbls" for a
    using d that by (auto simp: apart_def returns_its_result_def)
  have s0: "apart lbls0 (t\<lparr>at := Returned None\<rparr>) lbls"
    and s1: "apart lbls0 (t\<lparr>at := AwaitReadDirectory\<rparr>) lbls"
    and s2: "apart lbls0 (t\<lparr>at := AwaitRealpath name\<rparr>) lbls"
    and s3: "apart lbls0 (t\<lparr>at := AwaitIsExecutableLink name target\<rparr>) lbls"
    and s4: "name \<notin> lbls \<Longrightarrow> apart lbls0 (t\<lparr>at := AwaitIsExecutable name formattedPath\<rparr>) lbls"
    for name target formattedPath
    by (rule su; simp)+
  show ?thesis
  proof (cases "at t")
    case AwaitStat
    then show ?thesis
      by (simp add: scan_step_def Let_def s0 s1 split: option.splits)
  next
    case AwaitReadDirectory
    then show ?thesis
      by (simp add: scan_step_def nf s0 split: option.splits)
  next
    case (AwaitLstat name)
    then show ?thesis
      by (simp add: scan_step_def Let_def nf s2 s4 split: option.splits bool.splits)
  next
    case (AwaitRealpath name)
    then show ?thesis
      by (simp add: scan_step_def nf s3 split: option.splits)
  next
    case (AwaitIsExecutableLink name target)
    then show ?thesis
      by (simp add: scan_step_def Let_def nf apart_add_resource [OF assms] split: option.splits)
  next
    case (AwaitIsExecutable name formattedPath)
    with assms have "name \<notin> lbls"
      by (simp add: apart_def)
    with AwaitIsExecutable show ?thesis
      by (simp add: scan_step_def nf s0 apart_add_resource [OF assms] split: option.splits)
  next
    case (Returned r)
    with assms show ?thesis
      by (simp add: scan_step_def)
  qed
qed

lemma apart_run:
  "apart lbls0 t lbls \<Longrightarrow> run_to_completion fs exts t lbls = (ro, lbls') \<Longrightarrow>
     lbls0 \<subseteq> lbls'
     \<and> (\<forall>r. ro = Some r \<longrightarrow> distinct (map label r) \<and> label ` set r \<subseteq> lbls' - lbls0)"
proof (induction fs exts t lbls rule: run_to_completion.induct)
  case (1 fs exts t lbls)
  show ?case
  proof (cases "settled t")
    case True
    with "1.prems"(2) have "ro = returned t" "lbls' = lbls"
      by (simp_all add: run_to_completion.simps [of fs exts t lbls])
    with "1.prems"(1) show ?thesis
      by (auto simp: apart_def returned_def returns_its_result_def split: ScanPoint.splits)
  next
    case False
    obtain t1 lbls1 where s: "scan_step fs exts t lbls = (t1, lbls1)"
      by (cases "scan_step fs exts t lbls")
    with apart_step [OF "1.prems"(1), of fs exts] have a: "apart lbls0 t1 lbls1"
      by simp
    from False s "1.prems"(2) have "run_to_completion fs exts t1 lbls1 = (ro, lbls')"
      by (simp add: run_to_completion.simps [of fs exts t lbls])
    with "1.IH" [OF False s [symmetric] a] show ?thesis
      by simp
  qed
qed

lemma apart_settle_all:
  "\<forall>t \<in> set ts. result t = [] \<and> at t = AwaitStat \<Longrightarrow>
     settle_all fs exts ts lbls = (rs, lbls') \<Longrightarrow>
     lbls \<subseteq> lbls' \<and> distinct (map label (merge_results rs))
     \<and> label ` set (merge_results rs) \<subseteq> lbls' - lbls"
proof (induction ts arbitrary: lbls rs lbls')
  case Nil
  then show ?case by (auto simp: merge_results_def)
next
  case (Cons t ts)
  obtain r lbls1 where a: "run_to_completion fs exts t lbls = (r, lbls1)"
    by (cases "run_to_completion fs exts t lbls")
  obtain rs1 lbls2 where b: "settle_all fs exts ts lbls1 = (rs1, lbls2)"
    by (cases "settle_all fs exts ts lbls1")
  from Cons.prems(2) a b have rs: "rs = r # rs1" and l: "lbls' = lbls2"
    by simp_all
  from Cons.prems(1) have "apart lbls t lbls"
    by (simp add: apart_def returns_its_result_def)
  from apart_run [OF this a] have 1: "lbls \<subseteq> lbls1"
    and 2: "\<And>x. r = Some x \<Longrightarrow> distinct (map label x) \<and> label ` set x \<subseteq> lbls1 - lbls"
    by simp_all
  from Cons.IH [OF _ b] Cons.prems(1) have 3: "lbls1 \<subseteq> lbls2"
    and 4: "distinct (map label (merge_results rs1))"
    and 5: "label ` set (merge_results rs1) \<subseteq> lbls2 - lbls1"
    by simp_all
  show ?case
  proof (cases r)
    case None
    with rs have "merge_results rs = merge_results rs1"
      by (simp add: merge_results_def)
    with l 1 3 4 5 show ?thesis
      by auto
  next
    case (Some x)
    from 2 [OF Some] have dx: "distinct (map label x)" and sx: "label ` set x \<subseteq> lbls1 - lbls"
      by simp_all
    have m: "merge_results rs = x @ merge_results rs1"
      using rs Some by (simp add: merge_results_def)
    have disj: "label ` set x \<inter> label ` set (merge_results rs1) = {}"
      using sx 5 by blast
    have "distinct (map label (x @ merge_results rs1))"
      using dx 4 disj by simp
    moreover have "label ` set (x @ merge_results rs1) \<subseteq> lbls2 - lbls"
      using sx 5 1 3 by auto
    moreover have "lbls \<subseteq> lbls2"
      using 1 3 by simp
    ultimately show ?thesis
      using l m by simp
  qed
qed

lemma uninterrupted_scans_distinct_labels:
  "distinct (map label (completionResources (extractExecutables host fs exts [] pathValue)))"
proof -
  let ?ts = "map (\<lambda>p. start_scan p (if isWindows host then [CHR 0x5C] else ''/''))
               (split_paths host pathValue)"
  obtain rs lbls where s: "settle_all fs exts ?ts {} = (rs, lbls)"
    by (cases "settle_all fs exts ?ts {}")
  have "\<forall>t \<in> set ?ts. result t = [] \<and> at t = AwaitStat"
    by (simp add: start_scan_def)
  from apart_settle_all [OF this s] have "distinct (map label (merge_results rs))"
    by simp
  with s show ?thesis
    by (simp add: extractExecutables_def Promise_all_def Let_def)
qed



section \<open>The lookup that nothing interrupts\<close>

text \<open>
  When nothing but its own scans runs while a lookup is suspended, its two parts make up
  \<^verbatim>\<open>getExecutablesInPath\<close> as defined above: the scans resumed by the schedule, the rest
  of the fill, and the assignments.
\<close>

lemma settled_scan_step: "settled t \<Longrightarrow> scan_step fs exts t lbls = (t, lbls)"
  by (cases "at t") (simp_all add: settled_def scan_step_def)

lemma step_then_run:
  "(case scan_step fs exts t lbls of (t1, lbls1) \<Rightarrow> run_to_completion fs exts t1 lbls1)
     = run_to_completion fs exts t lbls"
proof (cases "settled t")
  case True
  then show ?thesis by (simp add: settled_scan_step)
next
  case False
  then show ?thesis by (simp add: run_to_completion.simps [of fs exts t lbls])
qed

lemma settle_each_same:
  "settle_each fs exts (zip ts (replicate (length ts) exts)) lbls = settle_all fs exts ts lbls"
proof (induction ts arbitrary: lbls)
  case Nil
  show ?case by simp
next
  case (Cons t ts)
  obtain t1 lbls1 where s: "scan_step fs exts t lbls = (t1, lbls1)"
    by (cases "scan_step fs exts t lbls")
  with step_then_run [of fs exts t lbls]
  have "run_to_completion fs exts t1 lbls1 = run_to_completion fs exts t lbls"
    by simp
  with s Cons.IH show ?case
    by (simp split: prod.splits)
qed

lemma resume_scan_same:
  assumes "passedExts f = replicate (length (fillPromises f)) (cachedWindowsExeExtensions this)"
  shows "resume_scan fs this i f
     = (case resume fs (cachedWindowsExeExtensions this) i (fillPromises f) (fillLabels f) of
          (ts, lbls) \<Rightarrow> f\<lparr>fillPromises := ts, fillLabels := lbls\<rparr>)"
proof (cases "i < length (fillPromises f)")
  case True
  have "(replicate n x)[i := x] = replicate n x" for n and x :: WindowsExeExtensions
    by (induction n arbitrary: i) (auto split: nat.splits)
  with True assms show ?thesis
    by (simp add: resume_scan_def resume_def split: prod.splits)
next
  case False
  then show ?thesis
    by (simp add: resume_scan_def resume_def)
qed

lemma fold_resume_scan_same:
  assumes "passedExts f = replicate (length (fillPromises f)) (cachedWindowsExeExtensions this)"
  shows "fold (resume_scan fs this) schedule f
     = (case interleave fs (cachedWindowsExeExtensions this) schedule (fillPromises f) (fillLabels f) of
          (ts, lbls) \<Rightarrow> f\<lparr>fillPromises := ts, fillLabels := lbls\<rparr>)"
  using assms
proof (induction schedule arbitrary: f)
  case Nil
  show ?case by simp
next
  case (Cons i schedule)
  let ?e = "cachedWindowsExeExtensions this"
  obtain ts lbls where r: "resume fs ?e i (fillPromises f) (fillLabels f) = (ts, lbls)"
    by (cases "resume fs ?e i (fillPromises f) (fillLabels f)")
  with resume_length [of fs ?e i "fillPromises f" "fillLabels f"]
  have len: "length ts = length (fillPromises f)"
    by simp
  from Cons.prems r have 1: "resume_scan fs this i f = f\<lparr>fillPromises := ts, fillLabels := lbls\<rparr>"
    by (simp add: resume_scan_same)
  from Cons.prems len
  have "passedExts (f\<lparr>fillPromises := ts, fillLabels := lbls\<rparr>)
      = replicate (length (fillPromises (f\<lparr>fillPromises := ts, fillLabels := lbls\<rparr>))) ?e"
    by simp
  from Cons.IH [OF this] 1 r show ?case
    by (simp split: prod.splits)
qed

lemma begin_lookup_absent:
  "resolvePathValue host env shellType = None \<Longrightarrow> begin_lookup host this env shellType = Returns None"
  by (simp add: begin_lookup_def)

lemma begin_lookup_hit:
  "resolvePathValue host env shellType = Some pathValue \<Longrightarrow> cachedExes this = Some exes
     \<Longrightarrow> cachedPathValue this = Some pathValue
     \<Longrightarrow> begin_lookup host this env shellType = Returns (Some exes)"
  by (simp add: begin_lookup_def)

lemma begin_lookup_miss:
  "resolvePathValue host env shellType = Some pathValue
     \<Longrightarrow> cachedExes this = None \<or> cachedPathValue this \<noteq> Some pathValue
     \<Longrightarrow> begin_lookup host this env shellType
         = Fills \<lparr>fillPathValue = pathValue,
                  fillPromises = map (\<lambda>p. start_scan p (if isWindows host then [CHR 0x5C] else ''/''))
                                   (split_paths host pathValue),
                  fillLabels = {},
                  passedExts = replicate (length (split_paths host pathValue))
                                 (cachedWindowsExeExtensions this)\<rparr>"
  by (auto simp: begin_lookup_def Let_def)

lemma lookup_miss:
  "resolvePathValue host env shellType = Some pathValue
     \<Longrightarrow> cachedExes this = None \<or> cachedPathValue this \<noteq> Some pathValue
     \<Longrightarrow> getExecutablesInPath host fs schedule this env shellType
         = (Some (extractExecutables host fs (cachedWindowsExeExtensions this) schedule pathValue),
            this\<lparr>cachedPathValue := Some pathValue,
                 cachedExes := Some (extractExecutables host fs (cachedWindowsExeExtensions this)
                                       schedule pathValue)\<rparr>,
            split_paths host pathValue)"
  by (auto simp: getExecutablesInPath_def Let_def)

lemma fill_in_one_piece:
  fixes host this pathValue
  defines "f \<equiv> \<lparr>fillPathValue = pathValue,
                  fillPromises = map (\<lambda>p. start_scan p (if isWindows host then [CHR 0x5C] else ''/''))
                                   (split_paths host pathValue),
                  fillLabels = {},
                  passedExts = replicate (length (split_paths host pathValue))
                                 (cachedWindowsExeExtensions this)\<rparr>"
  shows "publish this pathValue (await_all fs this (fold (resume_scan fs this) schedule f))
     = (extractExecutables host fs (cachedWindowsExeExtensions this) schedule pathValue,
        this\<lparr>cachedPathValue := Some pathValue,
             cachedExes := Some (extractExecutables host fs (cachedWindowsExeExtensions this)
                                   schedule pathValue)\<rparr>)"
proof -
  let ?e = "cachedWindowsExeExtensions this"
  have same: "passedExts f = replicate (length (fillPromises f)) ?e"
    by (simp add: f_def)
  obtain ts lbls where i: "interleave fs ?e schedule (fillPromises f) (fillLabels f) = (ts, lbls)"
    by (cases "interleave fs ?e schedule (fillPromises f) (fillLabels f)")
  with interleave_length [of fs ?e schedule "fillPromises f" "fillLabels f"]
  have len: "length ts = length (fillPromises f)"
    by simp
  from fold_resume_scan_same [OF same, of fs schedule] i
  have "fold (resume_scan fs this) schedule f = f\<lparr>fillPromises := ts, fillLabels := lbls\<rparr>"
    by simp
  with same len have "await_all fs this (fold (resume_scan fs this) schedule f)
      = settle_all fs ?e ts lbls"
    by (simp add: await_all_def settle_each_same [of fs ?e ts lbls, symmetric])
  with i have "await_all fs this (fold (resume_scan fs this) schedule f)
      = Promise_all fs ?e schedule (fillPromises f) (fillLabels f)"
    by (simp add: Promise_all_def)
  then show ?thesis
    by (simp add: f_def extractExecutables_def publish_def Let_def split: prod.splits)
qed

lemma lookup_in_one_piece:
  "(begin_lookup host this env shellType = Returns r \<longrightarrow>
      getExecutablesInPath host fs schedule this env shellType = (r, this, []))
   \<and> (begin_lookup host this env shellType = Fills f \<longrightarrow>
        getExecutablesInPath host fs schedule this env shellType
          = (Some (fst (publish this (fillPathValue f)
                     (await_all fs this (fold (resume_scan fs this) schedule f)))),
             snd (publish this (fillPathValue f)
                     (await_all fs this (fold (resume_scan fs this) schedule f))),
             map path (fillPromises f)))"
proof (cases "resolvePathValue host env shellType")
  case None
  then show ?thesis
    by (simp add: begin_lookup_absent getExecutablesInPath_def)
next
  case (Some pathValue)
  show ?thesis
  proof (cases "cachedExes this = None \<or> cachedPathValue this \<noteq> Some pathValue")
    case True
    let ?f = "\<lparr>fillPathValue = pathValue,
               fillPromises = map (\<lambda>p. start_scan p (if isWindows host then [CHR 0x5C] else ''/''))
                                (split_paths host pathValue),
               fillLabels = {},
               passedExts = replicate (length (split_paths host pathValue))
                              (cachedWindowsExeExtensions this)\<rparr>"
    have b: "begin_lookup host this env shellType = Fills ?f"
      using Some True by (rule begin_lookup_miss)
    have "getExecutablesInPath host fs schedule this env shellType
          = (Some (fst (publish this (fillPathValue ?f)
                     (await_all fs this (fold (resume_scan fs this) schedule ?f)))),
             snd (publish this (fillPathValue ?f)
                     (await_all fs this (fold (resume_scan fs this) schedule ?f))),
             map path (fillPromises ?f))"
      using lookup_miss [OF Some True, of fs schedule]
        fill_in_one_piece [of this pathValue fs schedule host]
      by (simp add: comp_def start_scan_def)
    with b show ?thesis
      by auto
  next
    case False
    then obtain exes where "cachedExes this = Some exes" "cachedPathValue this = Some pathValue"
      by auto
    with Some show ?thesis
      by (simp add: begin_lookup_hit getExecutablesInPath_def)
  qed
qed



end
